theory Spec2Isabelle
  imports Main "HOL-Library.AList"
begin

section \<open>Values and errors\<close>

text \<open>
  Tool arguments, tool results, resource contents, launch parameters and server-info
  snapshots are opaque to the hub: they are carried as uninterpreted text.
\<close>

type_synonym json = string

datatype js_value = JStr string | JBool bool | JNum int

text \<open>
  Thrown values. The classes come from \<^verbatim>\<open>utils/errors.js\<close>; the hub builds
  \<^verbatim>\<open>ServerError\<close> itself and tests \<^verbatim>\<open>instanceof ConfigError\<close>. Every other error is
  raised by a collaborator or by Node and only read through \<^verbatim>\<open>code\<close> and \<^verbatim>\<open>message\<close>.
\<close>

datatype error_class =
  ServerErrorClass | ConnectionErrorClass | ConfigErrorClass | MCPHubErrorClass | ErrorClass

record js_error =
  err_class :: error_class
  err_code :: "string option"
  err_message :: string
  err_data :: "(string \<times> js_value) list"

text \<open>
  Modelled from the spec: the constructor of \<^verbatim>\<open>ServerError\<close> (utils/errors.js), called as
  \<^verbatim>\<open>new ServerError(message, data)\<close>. It keeps the message and the data; the code that
  the class gives its instances is not read by any operation below and is left unset.
\<close>

definition ServerError :: "string \<Rightarrow> (string \<times> js_value) list \<Rightarrow> js_error" where
  "ServerError msg d =
     \<lparr>err_class = ServerErrorClass, err_code = None, err_message = msg, err_data = d\<rparr>"

text \<open>\<^verbatim>\<open>error.code || dflt\<close>: an absent or empty code is falsy.\<close>

definition code_or :: "js_error \<Rightarrow> string \<Rightarrow> string" where
  "code_or e dflt = (case err_code e of None \<Rightarrow> dflt | Some c \<Rightarrow> if c = [] then dflt else c)"

text \<open>
  Modelled from the spec: \<^verbatim>\<open>wrapError(error, code, data)\<close> (utils/errors.js). A
  ConfigError is never wrapped further: it is returned as it is. Any other error becomes
  a generic wrapped error that carries a machine-readable code, the contextual fields and
  the original error's message; the code is the error's own when it has one and the given
  one otherwise. The hub operations below take the wrapping function as a parameter; this
  definition is the instance used in concrete runs.
\<close>

definition wrapError_spec :: "js_error \<Rightarrow> string \<Rightarrow> (string \<times> js_value) list \<Rightarrow> js_error" where
  "wrapError_spec e c d =
     (if err_class e = ConfigErrorClass then e
      else \<lparr>err_class = MCPHubErrorClass, err_code = Some (code_or e c),
             err_message = err_message e, err_data = d\<rparr>)"

section \<open>The hub (MCPHub.js)\<close>

subsection \<open>Data\<close>

text \<open>
  One entry of the server table: the launch or connection parameters, opaque to the hub,
  and the \<^verbatim>\<open>disabled\<close> flag, which may be absent. Every entry is an object.
\<close>

record server_config =
  params :: json
  disabled :: "bool option"

record config =
  mcpServers :: "(string \<times> server_config) list option"

datatype config_arg = ConfigPath string | ConfigObject config

text \<open>
  A connection handle: \<^verbatim>\<open>new MCPConnection(name, serverConfig)\<close>. \<open>conn_id\<close> is the
  identity of the JavaScript object, so that two handles made for one name differ.
\<close>

record connection =
  conn_id :: nat
  conn_name :: string
  conn_config :: server_config

datatype level = Info | Debug

datatype hub_event =
    Logged level string "(string \<times> js_value) list"
  | LogError string string "(string \<times> js_value) list"
  | ConnectionsSet string connection
  | ConnectionsClear
  | ConnectCall connection
  | StartCall connection
  | StopCall connection bool
  | DisconnectCall connection
  | CallToolCall connection string json
  | ReadResourceCall connection string
  | LoadConfigCall
  | WatchConfigCall
  | ConfigChangedSubscribed
  | UpdateConfigCall config_arg

text \<open>
  The collaborators the hub calls into, none of them under src/: the methods of
  MCPConnection and of ConfigManager, and \<^verbatim>\<open>wrapError\<close>. Each is an arbitrary function of
  a hidden state \<open>'x\<close> (processes, sockets, the configuration file); a call returns its
  outcome and the new hidden state. A returned \<open>Inl e\<close> or \<open>Some e\<close> is a rejected promise.
  \<open>cm_loadConfig\<close> and \<open>cm_updateConfig\<close> return, on success, the in-memory document that
  \<^verbatim>\<open>getConfig()\<close> gives afterwards. The constructor of MCPConnection and
  \<^verbatim>\<open>getServerInfo()\<close> only build and read the handle: they do not fail.
\<close>

record 'x collaborators =
  conn_connect :: "connection \<Rightarrow> 'x \<Rightarrow> js_error option \<times> 'x"
  conn_start :: "connection \<Rightarrow> 'x \<Rightarrow> (js_error + json) \<times> 'x"
  conn_stop :: "connection \<Rightarrow> bool \<Rightarrow> 'x \<Rightarrow> (js_error + json) \<times> 'x"
  conn_disconnect :: "connection \<Rightarrow> 'x \<Rightarrow> js_error option \<times> 'x"
  conn_callTool :: "connection \<Rightarrow> string \<Rightarrow> json \<Rightarrow> 'x \<Rightarrow> (js_error + json) \<times> 'x"
  conn_readResource :: "connection \<Rightarrow> string \<Rightarrow> 'x \<Rightarrow> (js_error + json) \<times> 'x"
  conn_getServerInfo :: "connection \<Rightarrow> 'x \<Rightarrow> json"
  cm_loadConfig :: "'x \<Rightarrow> (js_error + config option) \<times> 'x"
  cm_watchConfig :: "'x \<Rightarrow> js_error option \<times> 'x"
  cm_updateConfig :: "config_arg \<Rightarrow> 'x \<Rightarrow> (js_error + config option) \<times> 'x"
  wrapError :: "js_error \<Rightarrow> string \<Rightarrow> (string \<times> js_value) list \<Rightarrow> js_error"

text \<open>
  The hub object. \<open>connections\<close> is the JavaScript \<^verbatim>\<open>Map\<close> in insertion order; \<open>config\<close>
  is the in-memory document of the ConfigManager, which \<^verbatim>\<open>getConfig()\<close> returns by
  reference (the hub writes into it); \<open>next_id\<close> numbers the handles made so far;
  \<open>trace\<close> records, in program order, the log lines, the writes to the map and the calls
  to collaborators.
\<close>

record 'x hub =
  connections :: "(string \<times> connection) list"
  config :: "config option"
  shouldWatchConfig :: bool
  next_id :: nat
  ext :: 'x
  trace :: "hub_event list"

definition emit :: "hub_event \<Rightarrow> 'x hub \<Rightarrow> 'x hub" where
  "emit ev s = s\<lparr>trace := trace s @ [ev]\<rparr>"

text \<open>\<^verbatim>\<open>typeof configPathOrObject === "string"\<close>\<close>

definition is_path :: "config_arg \<Rightarrow> bool" where
  "is_path a = (case a of ConfigPath _ \<Rightarrow> True | ConfigObject _ \<Rightarrow> False)"

text \<open>The constructor: watching is only requested for a configuration given as a path.\<close>

definition new_MCPHub :: "config_arg \<Rightarrow> bool \<Rightarrow> 'x \<Rightarrow> 'x hub" where
  "new_MCPHub configPathOrObject watch x =
     \<lparr>connections = [], config = None,
      shouldWatchConfig = (watch \<and> is_path configPathOrObject),
      next_id = 0, ext = x, trace = []\<rparr>"

text \<open>\<^verbatim>\<open>Object.entries(config?.mcpServers || {})\<close>\<close>

definition server_entries :: "config option \<Rightarrow> (string \<times> server_config) list" where
  "server_entries c =
     (case c of None \<Rightarrow> [] | Some cfg \<Rightarrow> (case mcpServers cfg of None \<Rightarrow> [] | Some es \<Rightarrow> es))"

text \<open>\<^verbatim>\<open>config.mcpServers?.[name]\<close>\<close>

definition server_entry :: "config \<Rightarrow> string \<Rightarrow> server_config option" where
  "server_entry cfg name = (case mcpServers cfg of None \<Rightarrow> None | Some es \<Rightarrow> map_of es name)"

text \<open>\<^verbatim>\<open>serverConfig.disabled = b\<close>, written through the reference into the document.\<close>

definition set_disabled :: "string \<Rightarrow> bool \<Rightarrow> config \<Rightarrow> config" where
  "set_disabled name b cfg =
     cfg\<lparr>mcpServers := map_option (AList.map_entry name (\<lambda>sc. sc\<lparr>disabled := Some b\<rparr>)) (mcpServers cfg)\<rparr>"

text \<open>\<^verbatim>\<open>new MCPConnection(name, serverConfig)\<close>: a fresh handle.\<close>

definition new_MCPConnection :: "string \<Rightarrow> server_config \<Rightarrow> 'x hub \<Rightarrow> connection \<times> 'x hub" where
  "new_MCPConnection name serverConfig s =
     (\<lparr>conn_id = next_id s, conn_name = name, conn_config = serverConfig\<rparr>,
      s\<lparr>next_id := Suc (next_id s)\<rparr>)"

text \<open>\<^verbatim>\<open>this.connections.set(name, connection)\<close>: a held key keeps its place, a new one goes last.\<close>

definition connections_set :: "string \<Rightarrow> connection \<Rightarrow> 'x hub \<Rightarrow> 'x hub" where
  "connections_set name connection s =
     emit (ConnectionsSet name connection)
       (s\<lparr>connections := AList.update name connection (connections s)\<rparr>)"

text \<open>\<^verbatim>\<open>await connection.connect()\<close>\<close>

definition call_connect :: "'x collaborators \<Rightarrow> connection \<Rightarrow> 'x hub \<Rightarrow> js_error option \<times> 'x hub" where
  "call_connect E connection s =
     (case conn_connect E connection (ext s) of
        (r, x) \<Rightarrow> (r, (emit (ConnectCall connection) s)\<lparr>ext := x\<rparr>))"

subsection \<open>startConfiguredServers\<close>

text \<open>The body of the \<^verbatim>\<open>try\<close> block, for one entry of the server table.\<close>

definition start_entry_try :: "'x collaborators \<Rightarrow> string \<Rightarrow> server_config \<Rightarrow> 'x hub \<Rightarrow> js_error option \<times> 'x hub" where
  "start_entry_try E name serverConfig s =
     (let s1 = (if disabled serverConfig = Some True
                then emit (Logged Debug ''Skipping disabled MCP server'' [(''server'', JStr name)]) s
                else emit (Logged Info ''Initializing MCP server'' [(''server'', JStr name)]) s)
      in case new_MCPConnection name serverConfig s1 of
           (connection, s2) \<Rightarrow> call_connect E connection (connections_set name connection s2))"

text \<open>One iteration: the \<^verbatim>\<open>try\<close> block and its \<^verbatim>\<open>catch\<close>, which logs and goes on.\<close>

definition start_entry :: "'x collaborators \<Rightarrow> string \<times> server_config \<Rightarrow> 'x hub \<Rightarrow> 'x hub" where
  "start_entry E entry s =
     (case start_entry_try E (fst entry) (snd entry) s of
        (None, s') \<Rightarrow> s'
      | (Some error, s') \<Rightarrow>
          emit (LogError (code_or error ''SERVER_START_ERROR'') ''Failed to start server''
                  [(''server'', JStr (fst entry)), (''error'', JStr (err_message error))]) s')"

fun start_entries :: "'x collaborators \<Rightarrow> (string \<times> server_config) list \<Rightarrow> 'x hub \<Rightarrow> 'x hub" where
  "start_entries E [] s = s"
| "start_entries E (entry # servers) s = start_entries E servers (start_entry E entry s)"

definition startConfiguredServers :: "'x collaborators \<Rightarrow> 'x hub \<Rightarrow> (js_error + unit) \<times> 'x hub" where
  "startConfiguredServers E s =
     (let servers = server_entries (config s);
          s0 = emit (Logged Info ''Starting configured MCP servers'' [(''count'', JNum (int (length servers)))]) s
      in (Inr (), start_entries E servers s0))"

subsection \<open>Status queries and call routing\<close>

definition getServerStatus :: "'x collaborators \<Rightarrow> string \<Rightarrow> 'x hub \<Rightarrow> js_error + json" where
  "getServerStatus E name s =
     (case map_of (connections s) name of
        None \<Rightarrow> Inl (ServerError ''Server not found'' [(''server'', JStr name)])
      | Some connection \<Rightarrow> Inr (conn_getServerInfo E connection (ext s)))"

definition getAllServerStatuses :: "'x collaborators \<Rightarrow> 'x hub \<Rightarrow> json list" where
  "getAllServerStatuses E s =
     map (\<lambda>connection. conn_getServerInfo E connection (ext s)) (map snd (connections s))"

definition callTool :: "'x collaborators \<Rightarrow> string \<Rightarrow> string \<Rightarrow> json \<Rightarrow> 'x hub \<Rightarrow> (js_error + json) \<times> 'x hub" where
  "callTool E serverName toolName args s =
     (case map_of (connections s) serverName of
        None \<Rightarrow>
          (Inl (ServerError ''Server not found''
                  [(''server'', JStr serverName), (''operation'', JStr ''tool_call''),
                   (''tool'', JStr toolName)]), s)
      | Some connection \<Rightarrow>
          (case conn_callTool E connection toolName args (ext s) of
             (r, x) \<Rightarrow> (r, (emit (CallToolCall connection toolName args) s)\<lparr>ext := x\<rparr>)))"

definition readResource :: "'x collaborators \<Rightarrow> string \<Rightarrow> string \<Rightarrow> 'x hub \<Rightarrow> (js_error + json) \<times> 'x hub" where
  "readResource E serverName uri s =
     (case map_of (connections s) serverName of
        None \<Rightarrow>
          (Inl (ServerError ''Server not found''
                  [(''server'', JStr serverName), (''operation'', JStr ''resource_read''),
                   (''uri'', JStr uri)]), s)
      | Some connection \<Rightarrow>
          (case conn_readResource E connection uri (ext s) of
             (r, x) \<Rightarrow> (r, (emit (ReadResourceCall connection uri) s)\<lparr>ext := x\<rparr>)))"

subsection \<open>connectServer, disconnectServer, disconnectAll\<close>

definition connectServer :: "'x collaborators \<Rightarrow> string \<Rightarrow> server_config \<Rightarrow> 'x hub \<Rightarrow> (js_error + json) \<times> 'x hub" where
  "connectServer E name cfg s =
     (case new_MCPConnection name cfg s of
        (connection, s1) \<Rightarrow>
          (case call_connect E connection (connections_set name connection s1) of
             (Some error, s2) \<Rightarrow> (Inl error, s2)
           | (None, s2) \<Rightarrow> (Inr (conn_getServerInfo E connection (ext s2)), s2)))"

text \<open>
  The result is the settled promise: \<open>Inr ()\<close> fulfilled, \<open>Inl e\<close> rejected. The error of
  \<^verbatim>\<open>connection.disconnect()\<close> is caught and logged; the entry stays in the map.
\<close>

definition disconnectServer :: "'x collaborators \<Rightarrow> string \<Rightarrow> 'x hub \<Rightarrow> (js_error + unit) \<times> 'x hub" where
  "disconnectServer E name s =
     (case map_of (connections s) name of
        None \<Rightarrow> (Inr (), s)
      | Some connection \<Rightarrow>
          (case conn_disconnect E connection (ext s) of
             (None, x) \<Rightarrow> (Inr (), (emit (DisconnectCall connection) s)\<lparr>ext := x\<rparr>)
           | (Some error, x) \<Rightarrow>
               (Inr (),
                emit (LogError ''SERVER_DISCONNECT_ERROR'' ''Error disconnecting server''
                        [(''server'', JStr name), (''error'', JStr (err_message error))])
                  ((emit (DisconnectCall connection) s)\<lparr>ext := x\<rparr>))))"

text \<open>
  \<^verbatim>\<open>Promise.allSettled(keys.map(name => this.disconnectServer(name)))\<close>: one branch per
  key, every outcome collected. The branches are run here in key order, one after the
  other; the hub state they share is the trace only.
\<close>

fun allSettled_disconnect :: "'x collaborators \<Rightarrow> string list \<Rightarrow> 'x hub \<Rightarrow> (js_error + unit) list \<times> 'x hub" where
  "allSettled_disconnect E [] s = ([], s)"
| "allSettled_disconnect E (name # names) s =
     (case disconnectServer E name s of
        (r, s1) \<Rightarrow> (case allSettled_disconnect E names s1 of (rs, s2) \<Rightarrow> (r # rs, s2)))"



subsection \<open>startServer, stopServer\<close>

text \<open>Reading a property of an undefined configuration document.\<close>

definition TypeError :: "string \<Rightarrow> js_error" where
  "TypeError msg = \<lparr>err_class = ErrorClass, err_code = None, err_message = msg, err_data = []\<rparr>"

text \<open>
  \<^verbatim>\<open>await this.configManager.updateConfig(arg)\<close>: on success the manager's in-memory
  document is the one it returns; on failure the document the hub sees is unchanged.
\<close>

definition call_updateConfig :: "'x collaborators \<Rightarrow> config_arg \<Rightarrow> 'x hub \<Rightarrow> js_error option \<times> 'x hub" where
  "call_updateConfig E arg s =
     (case cm_updateConfig E arg (ext s) of
        (Inl error, x) \<Rightarrow> (Some error, (emit (UpdateConfigCall arg) s)\<lparr>ext := x\<rparr>)
      | (Inr doc, x) \<Rightarrow> (None, (emit (UpdateConfigCall arg) s)\<lparr>ext := x, config := doc\<rparr>))"

definition startServer :: "'x collaborators \<Rightarrow> string \<Rightarrow> 'x hub \<Rightarrow> (js_error + json) \<times> 'x hub" where
  "startServer E name s =
     (case config s of
        None \<Rightarrow> (Inl (TypeError ''Cannot read properties of undefined''), s)
      | Some cfg \<Rightarrow>
          (case server_entry cfg name of
             None \<Rightarrow> (Inl (ServerError ''Server not found'' [(''server'', JStr name)]), s)
           | Some serverConfig \<Rightarrow>
               (case map_of (connections s) name of
                  None \<Rightarrow> (Inl (ServerError ''Server connection not found'' [(''server'', JStr name)]), s)
                | Some connection \<Rightarrow>
                    (case (if disabled serverConfig = Some True
                           then call_updateConfig E (ConfigObject (set_disabled name False cfg))
                                  (s\<lparr>config := Some (set_disabled name False cfg)\<rparr>)
                           else (None, s)) of
                       (Some error, s1) \<Rightarrow> (Inl error, s1)
                     | (None, s1) \<Rightarrow>
                         (case conn_start E connection (ext s1) of
                            (r, x) \<Rightarrow> (r, (emit (StartCall connection) s1)\<lparr>ext := x\<rparr>))))))"

definition stopServer :: "'x collaborators \<Rightarrow> string \<Rightarrow> bool \<Rightarrow> 'x hub \<Rightarrow> (js_error + json) \<times> 'x hub" where
  "stopServer E name disable s =
     (case config s of
        None \<Rightarrow> (Inl (TypeError ''Cannot read properties of undefined''), s)
      | Some cfg \<Rightarrow>
          (case server_entry cfg name of
             None \<Rightarrow> (Inl (ServerError ''Server not found'' [(''server'', JStr name)]), s)
           | Some serverConfig \<Rightarrow>
               (case (if disable
                      then call_updateConfig E (ConfigObject (set_disabled name True cfg))
                             (s\<lparr>config := Some (set_disabled name True cfg)\<rparr>)
                      else (None, s)) of
                  (Some error, s1) \<Rightarrow> (Inl error, s1)
                | (None, s1) \<Rightarrow>
                    (case map_of (connections s1) name of
                       None \<Rightarrow> (Inl (ServerError ''Server connection not found'' [(''server'', JStr name)]), s1)
                     | Some connection \<Rightarrow>
                         (case conn_stop E connection disable (ext s1) of
                            (r, x) \<Rightarrow> (r, (emit (StopCall connection disable) s1)\<lparr>ext := x\<rparr>))))))"

subsection \<open>initialize, updateConfig\<close>





subsection \<open>Example collaborators\<close>

text \<open>
  Collaborators without hidden state, for concrete runs: \<open>connect\<close> and \<open>disconnect\<close>
  fail for the names listed in \<open>bad\<close>, tools echo their arguments, resources are read
  from the uri, and the configuration manager fails with \<open>cfg_err\<close> when one is given.
\<close>

definition refused :: "string \<Rightarrow> js_error" where
  "refused name =
     \<lparr>err_class = ConnectionErrorClass, err_code = Some ''CONNECTION_ERROR'',
      err_message = ''connection refused'', err_data = [(''server'', JStr name)]\<rparr>"

definition example_collaborators :: "string list \<Rightarrow> js_error option \<Rightarrow> config option \<Rightarrow> unit collaborators" where
  "example_collaborators bad cfg_err doc =
     \<lparr>conn_connect = (\<lambda>c x. (if conn_name c \<in> set bad then Some (refused (conn_name c)) else None, x)),
      conn_start = (\<lambda>c x. (Inr ''connected'', x)),
      conn_stop = (\<lambda>c d x. (Inr (if d then ''disabled'' else ''disconnected''), x)),
      conn_disconnect = (\<lambda>c x. (if conn_name c \<in> set bad then Some (refused (conn_name c)) else None, x)),
      conn_callTool = (\<lambda>c t a x. (Inr a, x)),
      conn_readResource = (\<lambda>c u x. (Inr u, x)),
      conn_getServerInfo = (\<lambda>c x. conn_name c),
      cm_loadConfig = (\<lambda>x. (case cfg_err of Some e \<Rightarrow> Inl e | None \<Rightarrow> Inr doc, x)),
      cm_watchConfig = (\<lambda>x. (None, x)),
      cm_updateConfig = (\<lambda>a x. (case cfg_err of Some e \<Rightarrow> Inl e
                                 | None \<Rightarrow> Inr (case a of ConfigObject c \<Rightarrow> Some c | ConfigPath p \<Rightarrow> doc), x)),
      wrapError = wrapError_spec\<rparr>"

definition enabled_server :: server_config where
  "enabled_server = \<lparr>params = ''npx server'', disabled = None\<rparr>"

definition disabled_server :: server_config where
  "disabled_server = \<lparr>params = ''npx server'', disabled = Some True\<rparr>"

definition files_connection :: connection where
  "files_connection = \<lparr>conn_id = 0, conn_name = ''files'', conn_config = enabled_server\<rparr>"

text \<open>A hub that holds one connection, for the configured server \<open>files\<close>.\<close>

definition example_hub :: "unit hub" where
  "example_hub =
     \<lparr>connections = [(''files'', files_connection)],
      config = Some \<lparr>mcpServers = Some [(''files'', enabled_server)]\<rparr>,
      shouldWatchConfig = False, next_id = 1, ext = (), trace = []\<rparr>"



text \<open>A hub whose configuration names \<open>files\<close> and that holds no connection.\<close>

definition unconnected_hub :: "unit hub" where
  "unconnected_hub =
     \<lparr>connections = [],
      config = Some \<lparr>mcpServers = Some [(''files'', enabled_server)]\<rparr>,
      shouldWatchConfig = False, next_id = 0, ext = (), trace = []\<rparr>"

subsection \<open>Observations on traces\<close>

text \<open>The handles on which \<^verbatim>\<open>connect()\<close> was called, in call order.\<close>

fun connect_calls :: "hub_event list \<Rightarrow> connection list" where
  "connect_calls [] = []"
| "connect_calls (ConnectCall c # evs) = c # connect_calls evs"
| "connect_calls (ev # evs) = connect_calls evs"

text \<open>The writes \<^verbatim>\<open>connections.set(name, connection)\<close>, in program order.\<close>

fun connection_sets :: "hub_event list \<Rightarrow> (string \<times> connection) list" where
  "connection_sets [] = []"
| "connection_sets (ConnectionsSet name c # evs) = (name, c) # connection_sets evs"
| "connection_sets (ev # evs) = connection_sets evs"

text \<open>
  Every call of \<^verbatim>\<open>connect()\<close> on a handle comes after the handle was entered into the
  map under its name.
\<close>

definition set_before_connect :: "hub_event list \<Rightarrow> bool" where
  "set_before_connect evs =
     (\<forall>pre c post. evs = pre @ ConnectCall c # post \<longrightarrow> ConnectionsSet (conn_name c) c \<in> set pre)"

text \<open>The events an operation appended to the trace of the state it started from.\<close>

definition events_since :: "'x hub \<Rightarrow> 'x hub \<Rightarrow> hub_event list" where
  "events_since s s' = drop (length (trace s)) (trace s')"

text \<open>A configuration of two servers, the second one disabled.\<close>

definition two_servers :: "(string \<times> server_config) list" where
  "two_servers = [(''files'', enabled_server), (''search'', disabled_server)]"

definition fresh_hub :: "unit hub" where
  "fresh_hub = (new_MCPHub (ConfigObject \<lparr>mcpServers = Some two_servers\<rparr>) False ())
                 \<lparr>config := Some \<lparr>mcpServers = Some two_servers\<rparr>\<rparr>"

text \<open>
  The handles that \<^verbatim>\<open>new MCPConnection(name, serverConfig)\<close> makes for the entries of a
  server table, one after the other, when \<open>n\<close> handles were made before.
\<close>

fun handles_for :: "nat \<Rightarrow> (string \<times> server_config) list \<Rightarrow> connection list" where
  "handles_for n [] = []"
| "handles_for n (entry # servers) =
     \<lparr>conn_id = n, conn_name = fst entry, conn_config = snd entry\<rparr> # handles_for (Suc n) servers"

text \<open>
  The hidden state of the collaborators after \<^verbatim>\<open>connect()\<close> has run on each of the
  handles in turn, its failures ignored.
\<close>

fun connect_all :: "'x collaborators \<Rightarrow> connection list \<Rightarrow> 'x \<Rightarrow> 'x" where
  "connect_all E [] x = x"
| "connect_all E (c # cs) x = connect_all E cs (snd (conn_connect E c x))"

text \<open>The map after each of the handles was entered under its name, in turn.\<close>

fun enter_all :: "connection list \<Rightarrow> (string \<times> connection) list \<Rightarrow> (string \<times> connection) list" where
  "enter_all [] held = held"
| "enter_all (c # cs) held = enter_all cs (AList.update (conn_name c) c held)"

text \<open>
  The same hub after \<open>connectServer\<close> has added a connection \<open>notes\<close>, which the
  configuration does not name.
\<close>

definition adhoc_hub :: "unit hub" where
  "adhoc_hub =
     snd (connectServer (example_collaborators [] None None) ''notes'' enabled_server fresh_hub)"

text \<open>
  Collaborators whose hidden state is the list of the names on which \<^verbatim>\<open>connect()\<close> has
  run, and a new hub over them with the configuration of two servers.
\<close>

definition recording_collaborators :: "string list \<Rightarrow> string list collaborators" where
  "recording_collaborators bad =
     \<lparr>conn_connect = (\<lambda>c x. (if conn_name c \<in> set bad then Some (refused (conn_name c)) else None,
                               x @ [conn_name c])),
      conn_start = (\<lambda>c x. (Inr ''connected'', x)),
      conn_stop = (\<lambda>c d x. (Inr ''disconnected'', x)),
      conn_disconnect = (\<lambda>c x. (None, x)),
      conn_callTool = (\<lambda>c t a x. (Inr a, x)),
      conn_readResource = (\<lambda>c u x. (Inr u, x)),
      conn_getServerInfo = (\<lambda>c x. conn_name c),
      cm_loadConfig = (\<lambda>x. (Inr None, x)),
      cm_watchConfig = (\<lambda>x. (None, x)),
      cm_updateConfig = (\<lambda>a x. (Inr None, x)),
      wrapError = wrapError_spec\<rparr>"

definition recording_hub :: "string list hub" where
  "recording_hub = (new_MCPHub (ConfigObject \<lparr>mcpServers = Some two_servers\<rparr>) False [])
                     \<lparr>config := Some \<lparr>mcpServers = Some two_servers\<rparr>\<rparr>"

section \<open>The workspace registry (WorkspaceCacheManager)\<close>

subsection \<open>Data\<close>

record workspace_entry =
  pid :: int
  port :: int
  startTime :: string

text \<open>The registry document: a JSON object, its keys in order.\<close>

type_synonym document = "(string \<times> workspace_entry) list"

text \<open>
  The text of a file. \<open>Json d\<close> is the text \<^verbatim>\<open>JSON.stringify(d, null, 2)\<close>, which
  \<^verbatim>\<open>JSON.parse\<close> reads back as \<open>d\<close>; \<open>EmptyText\<close> is the empty string; \<open>Malformed\<close> is
  any text that \<^verbatim>\<open>JSON.parse\<close> rejects.
\<close>

datatype file_content = EmptyText | Json document | Malformed string

datatype reg_event =
    CreateLock "js_error option"
  | UnlinkLock "js_error option"
  | Sleep nat
  | ReadCacheFile "js_error option"
  | WriteCacheFile file_content "js_error option"
  | Kill int "js_error option"
  | RegLogged level string
  | RegLogError string string

text \<open>
  What the manager sees of the machine: the document file and the lock file (\<open>None\<close>: the
  file does not exist; the lock file holds a process id), the time that has passed, and
  the calls made so far with their outcomes. \<open>faults\<close> scripts what the rest of the
  system does to the manager's file operations: each call of \<^verbatim>\<open>fs.writeFile\<close>,
  \<^verbatim>\<open>fs.readFile\<close> or \<^verbatim>\<open>fs.unlink\<close> takes the next item; \<open>Some e\<close> makes that call fail
  with \<open>e\<close> and leave the files as they are (a lock creation failing with the code EEXIST
  is another process holding the lock at that moment), \<open>None\<close> or an exhausted script lets
  it act on the files.
\<close>

record registry =
  cache_file :: "file_content option"
  lock_file :: "int option"
  faults :: "js_error option list"
  clock :: nat
  events :: "reg_event list"

text \<open>
  Node's \<^verbatim>\<open>process\<close> object and the system time: the process id, the working directory,
  the outcome of \<^verbatim>\<open>process.kill(pid, 0)\<close>, and \<^verbatim>\<open>new Date().toISOString()\<close> at a given time.
\<close>

record process_env =
  proc_pid :: int
  proc_cwd :: string
  proc_kill :: "int \<Rightarrow> js_error option"
  date_iso :: "nat \<Rightarrow> string"

definition observe :: "reg_event \<Rightarrow> registry \<Rightarrow> registry" where
  "observe ev w = w\<lparr>events := events w @ [ev]\<rparr>"

definition fs_error :: "string \<Rightarrow> js_error" where
  "fs_error c = \<lparr>err_class = ErrorClass, err_code = Some c, err_message = c, err_data = []\<rparr>"

definition SyntaxError :: js_error where
  "SyntaxError =
     \<lparr>err_class = ErrorClass, err_code = None, err_message = ''Unexpected token in JSON'', err_data = []\<rparr>"

subsection \<open>File operations\<close>

definition next_fault :: "registry \<Rightarrow> js_error option \<times> registry" where
  "next_fault w = (case faults w of [] \<Rightarrow> (None, w) | f # fs \<Rightarrow> (f, w\<lparr>faults := fs\<rparr>))"

text \<open>\<^verbatim>\<open>fs.writeFile(this.lockFilePath, process.pid.toString(), { flag: 'wx' })\<close>\<close>

definition create_lock :: "process_env \<Rightarrow> registry \<Rightarrow> js_error option \<times> registry" where
  "create_lock P w =
     (case next_fault w of
        (Some e, w1) \<Rightarrow> (Some e, observe (CreateLock (Some e)) w1)
      | (None, w1) \<Rightarrow>
          (case lock_file w1 of
             Some holder \<Rightarrow> (Some (fs_error ''EEXIST''), observe (CreateLock (Some (fs_error ''EEXIST''))) w1)
           | None \<Rightarrow> (None, observe (CreateLock None) (w1\<lparr>lock_file := Some (proc_pid P)\<rparr>))))"

text \<open>\<^verbatim>\<open>fs.unlink(this.lockFilePath)\<close>\<close>

definition unlink_lock :: "registry \<Rightarrow> js_error option \<times> registry" where
  "unlink_lock w =
     (case next_fault w of
        (Some e, w1) \<Rightarrow> (Some e, observe (UnlinkLock (Some e)) w1)
      | (None, w1) \<Rightarrow>
          (case lock_file w1 of
             None \<Rightarrow> (Some (fs_error ''ENOENT''), observe (UnlinkLock (Some (fs_error ''ENOENT''))) w1)
           | Some holder \<Rightarrow> (None, observe (UnlinkLock None) (w1\<lparr>lock_file := None\<rparr>))))"

text \<open>\<^verbatim>\<open>fs.readFile(this.cacheFilePath, 'utf8')\<close>\<close>

definition read_cache_file :: "registry \<Rightarrow> (js_error + file_content) \<times> registry" where
  "read_cache_file w =
     (case next_fault w of
        (Some e, w1) \<Rightarrow> (Inl e, observe (ReadCacheFile (Some e)) w1)
      | (None, w1) \<Rightarrow>
          (case cache_file w1 of
             None \<Rightarrow> (Inl (fs_error ''ENOENT''), observe (ReadCacheFile (Some (fs_error ''ENOENT''))) w1)
           | Some content \<Rightarrow> (Inr content, observe (ReadCacheFile None) w1)))"

text \<open>\<^verbatim>\<open>fs.writeFile(this.cacheFilePath, content, 'utf8')\<close>\<close>

definition write_cache_file :: "file_content \<Rightarrow> registry \<Rightarrow> js_error option \<times> registry" where
  "write_cache_file content w =
     (case next_fault w of
        (Some e, w1) \<Rightarrow> (Some e, observe (WriteCacheFile content (Some e)) w1)
      | (None, w1) \<Rightarrow> (None, observe (WriteCacheFile content None) (w1\<lparr>cache_file := Some content\<rparr>)))"

text \<open>\<^verbatim>\<open>new Promise(resolve => setTimeout(resolve, n))\<close>\<close>

definition sleep :: "nat \<Rightarrow> registry \<Rightarrow> registry" where
  "sleep n w = observe (Sleep n) (w\<lparr>clock := clock w + n\<rparr>)"

subsection \<open>Private methods\<close>

text \<open>\<^verbatim>\<open>JSON.parse(content || '{}')\<close>\<close>

definition JSON_parse :: "file_content \<Rightarrow> js_error + document" where
  "JSON_parse content =
     (case content of EmptyText \<Rightarrow> Inr [] | Json d \<Rightarrow> Inr d | Malformed t \<Rightarrow> Inl SyntaxError)"

definition readCache :: "registry \<Rightarrow> (js_error + document) \<times> registry" where
  "readCache w =
     (case (case read_cache_file w of
              (Inl error, w1) \<Rightarrow> (Inl error, w1)
            | (Inr content, w1) \<Rightarrow> (JSON_parse content, w1)) of
        (Inr cache, w2) \<Rightarrow> (Inr cache, w2)
      | (Inl error, w2) \<Rightarrow>
          (if err_code error = Some ''ENOENT'' then (Inr [], w2) else (Inl error, w2)))"

definition writeCache :: "document \<Rightarrow> registry \<Rightarrow> js_error option \<times> registry" where
  "writeCache cache w = write_cache_file (Json cache) w"

definition isProcessRunning :: "process_env \<Rightarrow> int \<Rightarrow> registry \<Rightarrow> bool \<times> registry" where
  "isProcessRunning P p w =
     (case proc_kill P p of
        None \<Rightarrow> (True, observe (Kill p None) w)
      | Some error \<Rightarrow> (False, observe (Kill p (Some error)) w))"

definition maxRetries :: nat where
  "maxRetries = 10"

definition retryDelay :: nat where
  "retryDelay = 50"

definition lock_timeout :: js_error where
  "lock_timeout =
     \<lparr>err_class = ErrorClass, err_code = None,
      err_message = ''Failed to acquire lock after 10 attempts'', err_data = []\<rparr>"

text \<open>
  The outer \<^verbatim>\<open>try\<close> block of one pass through the loop of \<^verbatim>\<open>_withLock\<close>: create the
  lock file, run \<open>fn\<close>, and in the \<^verbatim>\<open>finally\<close> unlink the lock file, ignoring an error of
  the unlink. The outcome is that of the creation, or else that of \<open>fn\<close>.
\<close>

definition lock_try :: "process_env \<Rightarrow> (registry \<Rightarrow> js_error option \<times> registry) \<Rightarrow> registry \<Rightarrow> js_error option \<times> registry" where
  "lock_try P fn w =
     (case create_lock P w of
        (Some error, w1) \<Rightarrow> (Some error, w1)
      | (None, w1) \<Rightarrow> (case fn w1 of (r, w2) \<Rightarrow> (r, snd (unlink_lock w2))))"

text \<open>
  The loop of \<^verbatim>\<open>_withLock\<close> from a given value of \<^verbatim>\<open>attempt\<close>. The \<^verbatim>\<open>catch\<close> of the outer
  \<^verbatim>\<open>try\<close> sees the errors of the creation and of \<open>fn\<close> alike.
\<close>

function withLock_from :: "process_env \<Rightarrow> (registry \<Rightarrow> js_error option \<times> registry) \<Rightarrow> nat \<Rightarrow> registry \<Rightarrow> js_error option \<times> registry" where
  "withLock_from P fn attempt w =
     (if attempt < maxRetries
      then (case lock_try P fn w of
              (None, w1) \<Rightarrow> (None, w1)
            | (Some error, w1) \<Rightarrow>
                (if err_code error = Some ''EEXIST''
                 then withLock_from P fn (Suc attempt) (sleep retryDelay w1)
                 else (Some error, w1)))
      else (Some lock_timeout, w))"
  by pat_completeness auto
termination
  by (relation "measure (\<lambda>(P, fn, attempt, w). maxRetries - attempt)") auto

declare withLock_from.simps [simp del]

definition withLock :: "process_env \<Rightarrow> (registry \<Rightarrow> js_error option \<times> registry) \<Rightarrow> registry \<Rightarrow> js_error option \<times> registry" where
  "withLock P fn w = withLock_from P fn 0 w"

subsection \<open>register, deregister, getActiveWorkspaces\<close>

definition register_critical :: "string \<Rightarrow> workspace_entry \<Rightarrow> registry \<Rightarrow> js_error option \<times> registry" where
  "register_critical workspaceKey entry w =
     (case readCache w of
        (Inl error, w1) \<Rightarrow> (Some error, w1)
      | (Inr cache, w1) \<Rightarrow> writeCache (AList.update workspaceKey entry cache) w1)"

definition register :: "process_env \<Rightarrow> int \<Rightarrow> registry \<Rightarrow> (js_error + unit) \<times> registry" where
  "register P port_number w =
     (let workspaceKey = proc_cwd P;
          entry = \<lparr>pid = proc_pid P, port = port_number, startTime = date_iso P (clock w)\<rparr>
      in case withLock P (register_critical workspaceKey entry) w of
           (None, w1) \<Rightarrow> (Inr (), observe (RegLogged Info ''Registered workspace in cache'') w1)
         | (Some error, w1) \<Rightarrow>
             (Inl error, observe (RegLogError ''WORKSPACE_CACHE_REGISTER_ERROR'' (err_message error)) w1))"

definition deregister_critical :: "string \<Rightarrow> registry \<Rightarrow> js_error option \<times> registry" where
  "deregister_critical workspaceKey w =
     (case readCache w of
        (Inl error, w1) \<Rightarrow> (Some error, w1)
      | (Inr cache, w1) \<Rightarrow>
          (if map_of cache workspaceKey \<noteq> None
           then writeCache (AList.delete workspaceKey cache) w1
           else (None, w1)))"

definition deregister :: "process_env \<Rightarrow> registry \<Rightarrow> (js_error + unit) \<times> registry" where
  "deregister P w =
     (case withLock P (deregister_critical (proc_cwd P)) w of
        (None, w1) \<Rightarrow> (Inr (), observe (RegLogged Info ''Deregistered workspace from cache'') w1)
      | (Some error, w1) \<Rightarrow>
          (Inr (), observe (RegLogError ''WORKSPACE_CACHE_DEREGISTER_ERROR'' (err_message error)) w1))"

definition getActiveWorkspaces :: "registry \<Rightarrow> document \<times> registry" where
  "getActiveWorkspaces w =
     (case readCache w of
        (Inr cache, w1) \<Rightarrow> (cache, w1)
      | (Inl error, w1) \<Rightarrow> ([], observe (RegLogError ''WORKSPACE_CACHE_READ_ERROR'' (err_message error)) w1))"

subsection \<open>cleanupStaleEntries\<close>

text \<open>
  The loop over \<^verbatim>\<open>Object.entries(cache)\<close>; the accumulator is \<^verbatim>\<open>cleanedCache\<close>,
  \<^verbatim>\<open>removedCount\<close> and the world.
\<close>

fun cleanup_loop :: "process_env \<Rightarrow> document \<Rightarrow> document \<times> nat \<times> registry \<Rightarrow> document \<times> nat \<times> registry" where
  "cleanup_loop P [] acc = acc"
| "cleanup_loop P ((workspaceKey, entry) # rest) (cleanedCache, removedCount, w) =
     (case isProcessRunning P (pid entry) w of
        (True, w1) \<Rightarrow> cleanup_loop P rest (AList.update workspaceKey entry cleanedCache, removedCount, w1)
      | (False, w1) \<Rightarrow>
          cleanup_loop P rest
            (cleanedCache, Suc removedCount, observe (RegLogged Debug ''Removing stale workspace entry'') w1))"

definition cleanup_critical :: "process_env \<Rightarrow> registry \<Rightarrow> js_error option \<times> registry" where
  "cleanup_critical P w =
     (case readCache w of
        (Inl error, w1) \<Rightarrow> (Some error, w1)
      | (Inr cache, w1) \<Rightarrow>
          (case cleanup_loop P cache ([], 0, w1) of
             (cleanedCache, removedCount, w2) \<Rightarrow>
               (if removedCount > 0
                then (case writeCache cleanedCache w2 of
                        (Some error, w3) \<Rightarrow> (Some error, w3)
                      | (None, w3) \<Rightarrow> (None, observe (RegLogged Info ''Cleaned up stale workspace entries'') w3))
                else (None, w2))))"

definition cleanupStaleEntries :: "process_env \<Rightarrow> registry \<Rightarrow> (js_error + unit) \<times> registry" where
  "cleanupStaleEntries P w =
     (case withLock P (cleanup_critical P) w of
        (None, w1) \<Rightarrow> (Inr (), w1)
      | (Some error, w1) \<Rightarrow>
          (Inr (), observe (RegLogError ''WORKSPACE_CACHE_CLEANUP_ERROR'' (err_message error)) w1))"

subsection \<open>Observations on the registry\<close>

text \<open>The events of creation attempts that each found the lock busy and waited.\<close>

definition busy_events :: "js_error list \<Rightarrow> reg_event list" where
  "busy_events busy = concat (map (\<lambda>b. [CreateLock (Some b), Sleep retryDelay]) busy)"

text \<open>
  The state in which the critical section starts, when the creation of the lock file
  succeeded after the attempts \<open>busy\<close> had failed and \<open>rest\<close> of the script is left.
\<close>

definition acquired :: "process_env \<Rightarrow> js_error list \<Rightarrow> js_error option list \<Rightarrow> registry \<Rightarrow> registry" where
  "acquired P busy rest w =
     w\<lparr>lock_file := Some (proc_pid P), faults := rest,
       clock := clock w + retryDelay * length busy,
       events := events w @ busy_events busy @ [CreateLock None]\<rparr>"

text \<open>The verdict of the liveness probe: \<^verbatim>\<open>process.kill(pid, 0)\<close> does not throw.\<close>

definition running :: "process_env \<Rightarrow> int \<Rightarrow> bool" where
  "running P p = (proc_kill P p = None)"

text \<open>The contents handed to \<^verbatim>\<open>fs.writeFile\<close> for the document file, in program order.\<close>

fun cache_writes :: "reg_event list \<Rightarrow> file_content list" where
  "cache_writes [] = []"
| "cache_writes (WriteCacheFile content r # evs) = content # cache_writes evs"
| "cache_writes (ev # evs) = cache_writes evs"

text \<open>The document that a read of the file gives: none for a missing or empty file.\<close>

definition stored :: "registry \<Rightarrow> document" where
  "stored w = (case cache_file w of Some (Json d) \<Rightarrow> d | _ \<Rightarrow> [])"

text \<open>
  The document file after a reclamation, against the file before it: left as it was, or,
  when some row's process is not running, holding exactly the rows of the old document
  whose process is running.
\<close>

definition cleaned_or_untouched :: "process_env \<Rightarrow> file_content option \<Rightarrow> file_content option \<Rightarrow> bool" where
  "cleaned_or_untouched P c c' =
     (c' = c \<or> (\<exists>d. c = Some (Json d) \<and> (\<exists>row \<in> set d. \<not> running P (pid (snd row)))
                   \<and> c' = Some (Json (filter (\<lambda>row. running P (pid (snd row))) d))))"

subsection \<open>Example processes and registries\<close>

text \<open>A hub process 4242 in /home/dev/app; the processes 4242 and 100 exist, no other does.\<close>

definition example_process :: process_env where
  "example_process =
     \<lparr>proc_pid = 4242, proc_cwd = ''/home/dev/app'',
      proc_kill = (\<lambda>p. if p = 4242 \<or> p = 100 then None else Some (fs_error ''ESRCH'')),
      date_iso = (\<lambda>t. ''2025-01-01T00:00:00.000Z'')\<rparr>"

definition other_row :: "string \<times> workspace_entry" where
  "other_row = (''/home/dev/other'', \<lparr>pid = 100, port = 3000, startTime = ''2024-12-31T00:00:00.000Z''\<rparr>)"

definition stale_row :: "string \<times> workspace_entry" where
  "stale_row = (''/home/dev/gone'', \<lparr>pid = 999, port = 3001, startTime = ''2024-12-30T00:00:00.000Z''\<rparr>)"

definition example_registry :: "document \<Rightarrow> js_error option list \<Rightarrow> registry" where
  "example_registry d script =
     \<lparr>cache_file = Some (Json d), lock_file = None, faults = script, clock = 0, events = []\<rparr>"

definition busy_lock :: js_error where
  "busy_lock = fs_error ''EEXIST''"

definition permission_denied :: js_error where
  "permission_denied = fs_error ''EACCES''"

section \<open>Call routing\<close>

text \<open>
  C5. For a server name that is not a key of the connection map, \<open>callTool\<close> fails with a
  ServerError carrying the server name, the operation \<open>tool_call\<close> and the tool name, and
  \<open>readResource\<close> fails with a ServerError carrying the server name, the operation
  \<open>resource_read\<close> and the uri, the hub being left as it was. For a name that is held,
  each returns exactly the outcome (result or error) of the held connection's own
  \<open>callTool\<close> or \<open>readResource\<close>, called with the same tool name and arguments or uri.
\<close>

theorem routing_not_found_or_delegate:
  "(map_of (connections s) serverName = None \<longrightarrow>
      callTool E serverName toolName args s =
        (Inl (ServerError ''Server not found''
               [(''server'', JStr serverName), (''operation'', JStr ''tool_call''),
                (''tool'', JStr toolName)]), s)
      \<and> readResource E serverName uri s =
        (Inl (ServerError ''Server not found''
               [(''server'', JStr serverName), (''operation'', JStr ''resource_read''),
                (''uri'', JStr uri)]), s))
   \<and> (\<forall>connection. map_of (connections s) serverName = Some connection \<longrightarrow>
        fst (callTool E serverName toolName args s) = fst (conn_callTool E connection toolName args (ext s))
      \<and> ext (snd (callTool E serverName toolName args s)) = snd (conn_callTool E connection toolName args (ext s))
      \<and> fst (readResource E serverName uri s) = fst (conn_readResource E connection uri (ext s))
      \<and> ext (snd (readResource E serverName uri s)) = snd (conn_readResource E connection uri (ext s)))"
  by (simp add: callTool_def readResource_def emit_def split: prod.splits)

theorem routing_witness:
  "callTool (example_collaborators [] None None) ''missing-server'' ''x'' ''{}'' example_hub =
     (Inl (ServerError ''Server not found''
            [(''server'', JStr ''missing-server''), (''operation'', JStr ''tool_call''),
             (''tool'', JStr ''x'')]), example_hub)
   \<and> fst (callTool (example_collaborators [] None None) ''files'' ''x'' ''{}'' example_hub) = Inr ''{}''
   \<and> fst (readResource (example_collaborators [] None None) ''files'' ''file:///a'' example_hub) = Inr ''file:///a''"
  using routing_not_found_or_delegate [of example_hub "''missing-server''" "example_collaborators [] None None" "''x''" "''{}''" "''u''"]
    routing_not_found_or_delegate [of example_hub "''files''" "example_collaborators [] None None" "''x''" "''{}''" "''file:///a''"]
  by (simp add: example_hub_def example_collaborators_def files_connection_def)



section \<open>Disconnecting\<close>

lemma disconnectServer_connections:
  "connections (snd (disconnectServer E name s)) = connections s"
  by (simp add: disconnectServer_def emit_def split: option.splits prod.splits)


lemma allSettled_snd_Cons:
  "snd (allSettled_disconnect E (n # ns) s) = snd (allSettled_disconnect E ns (snd (disconnectServer E n s)))"
  by (simp split: prod.splits)

lemma allSettled_connections:
  "connections (snd (allSettled_disconnect E names s)) = connections s"
proof (induction names arbitrary: s)
  case Nil
  show ?case by simp
next
  case (Cons n names)
  show ?case
    unfolding allSettled_snd_Cons
    by (simp only: Cons.IH disconnectServer_connections)
qed








section \<open>Ad-hoc connections\<close>

lemma connectServer_state:
  "snd (connectServer E name cfg s) =
     s\<lparr>connections := AList.update name \<lparr>conn_id = next_id s, conn_name = name, conn_config = cfg\<rparr> (connections s),
       next_id := Suc (next_id s),
       ext := snd (conn_connect E \<lparr>conn_id = next_id s, conn_name = name, conn_config = cfg\<rparr> (ext s)),
       trace := trace s @ [ConnectionsSet name \<lparr>conn_id = next_id s, conn_name = name, conn_config = cfg\<rparr>,
                           ConnectCall \<lparr>conn_id = next_id s, conn_name = name, conn_config = cfg\<rparr>]\<rparr>"
  by (simp add: connectServer_def new_MCPConnection_def call_connect_def connections_set_def emit_def
        split: prod.splits option.splits)

text \<open>
  C3, as the claim states it, fails. The hub holds \<open>files_connection\<close> under \<open>files\<close>;
  \<open>connectServer\<close> is called for \<open>files\<close> and its connect is refused. The failure is
  propagated, and the entry for \<open>files\<close> is then the failed replacement (handle 1), not
  the previous handle.
\<close>

theorem connectServer_failure_keeps_replacement:
  "fst (connectServer (example_collaborators [''files''] None None) ''files'' enabled_server example_hub)
     = Inl (refused ''files'')
   \<and> map_of (connections example_hub) ''files'' = Some files_connection
   \<and> map_of (connections (snd (connectServer (example_collaborators [''files''] None None) ''files'' enabled_server example_hub))) ''files''
       \<noteq> Some files_connection
   \<and> map_of (connections (snd (connectServer (example_collaborators [''files''] None None) ''files'' enabled_server example_hub))) ''files''
       = Some \<lparr>conn_id = 1, conn_name = ''files'', conn_config = enabled_server\<rparr>"
  by (simp add: connectServer_def new_MCPConnection_def call_connect_def connections_set_def emit_def
        example_hub_def example_collaborators_def files_connection_def)

text \<open>
  C3, amended. \<open>connectServer\<close> enters the new handle under the name first and calls its
  connect second, so any previous handle is dropped at once: whether connect succeeds or
  fails, the entry for the name afterwards is the new handle, which differs from a
  previously held one. A connect failure is propagated to the caller; on success the new
  handle's server info is returned.
\<close>

theorem connectServer_replaces_before_connect:
  "map_of (connections (snd (connectServer E name cfg s))) name
     = Some \<lparr>conn_id = next_id s, conn_name = name, conn_config = cfg\<rparr>
   \<and> trace (snd (connectServer E name cfg s))
     = trace s @ [ConnectionsSet name \<lparr>conn_id = next_id s, conn_name = name, conn_config = cfg\<rparr>,
                  ConnectCall \<lparr>conn_id = next_id s, conn_name = name, conn_config = cfg\<rparr>]
   \<and> (\<forall>previous. map_of (connections s) name = Some previous \<and> conn_id previous < next_id s \<longrightarrow>
        map_of (connections (snd (connectServer E name cfg s))) name \<noteq> Some previous)
   \<and> (\<forall>error. fst (conn_connect E \<lparr>conn_id = next_id s, conn_name = name, conn_config = cfg\<rparr> (ext s)) = Some error \<longrightarrow>
        fst (connectServer E name cfg s) = Inl error)
   \<and> (fst (conn_connect E \<lparr>conn_id = next_id s, conn_name = name, conn_config = cfg\<rparr> (ext s)) = None \<longrightarrow>
        fst (connectServer E name cfg s)
          = Inr (conn_getServerInfo E \<lparr>conn_id = next_id s, conn_name = name, conn_config = cfg\<rparr>
                   (snd (conn_connect E \<lparr>conn_id = next_id s, conn_name = name, conn_config = cfg\<rparr> (ext s)))))"
proof -
  have "fst (conn_connect E \<lparr>conn_id = next_id s, conn_name = name, conn_config = cfg\<rparr> (ext s)) = Some error \<Longrightarrow>
        fst (connectServer E name cfg s) = Inl error" for error
    by (auto simp add: connectServer_def new_MCPConnection_def call_connect_def connections_set_def emit_def
        split: prod.splits option.splits)
  moreover have "fst (conn_connect E \<lparr>conn_id = next_id s, conn_name = name, conn_config = cfg\<rparr> (ext s)) = None \<Longrightarrow>
        fst (connectServer E name cfg s)
          = Inr (conn_getServerInfo E \<lparr>conn_id = next_id s, conn_name = name, conn_config = cfg\<rparr>
                   (snd (conn_connect E \<lparr>conn_id = next_id s, conn_name = name, conn_config = cfg\<rparr> (ext s))))"
    by (auto simp add: connectServer_def new_MCPConnection_def call_connect_def connections_set_def emit_def
        split: prod.splits option.splits)
  moreover have "map_of (connections (snd (connectServer E name cfg s))) name
     = Some \<lparr>conn_id = next_id s, conn_name = name, conn_config = cfg\<rparr>"
    by (simp add: connectServer_state update_conv')
  moreover have "\<forall>previous. map_of (connections s) name = Some previous \<and> conn_id previous < next_id s \<longrightarrow>
        map_of (connections (snd (connectServer E name cfg s))) name \<noteq> Some previous"
    by (auto simp add: connectServer_state update_conv')
  moreover have "trace (snd (connectServer E name cfg s))
     = trace s @ [ConnectionsSet name \<lparr>conn_id = next_id s, conn_name = name, conn_config = cfg\<rparr>,
                  ConnectCall \<lparr>conn_id = next_id s, conn_name = name, conn_config = cfg\<rparr>]"
    by (simp add: connectServer_state)
  ultimately show ?thesis by blast
qed

theorem connectServer_witness:
  "fst (connectServer (example_collaborators [''files''] None None) ''files'' disabled_server example_hub)
     = Inl (refused ''files'')
   \<and> fst (connectServer (example_collaborators [] None None) ''files'' disabled_server example_hub)
     = Inr ''files''
   \<and> map_of (connections (snd (connectServer (example_collaborators [''files''] None None) ''files'' disabled_server example_hub))) ''files''
     \<noteq> Some files_connection"
  using connectServer_replaces_before_connect [of "example_collaborators [''files''] None None" "''files''" disabled_server example_hub]
    connectServer_replaces_before_connect [of "example_collaborators [] None None" "''files''" disabled_server example_hub]
  by (simp add: example_hub_def example_collaborators_def files_connection_def)

section \<open>Starting the configured servers\<close>

lemma startConfiguredServers_fulfilled: "fst (startConfiguredServers E s) = Inr ()"
  by (simp add: startConfiguredServers_def Let_def)

lemma sbc_Nil: "set_before_connect []"
  by (simp add: set_before_connect_def)

lemma sbc_Cons:
  assumes "\<And>c. ev \<noteq> ConnectCall c" and "set_before_connect evs"
  shows "set_before_connect (ev # evs)"
  unfolding set_before_connect_def
proof (intro allI impI)
  fix pre c post
  assume eq: "ev # evs = pre @ ConnectCall c # post"
  show "ConnectionsSet (conn_name c) c \<in> set pre"
  proof (cases pre)
    case Nil
    then show ?thesis using eq assms(1) by simp
  next
    case (Cons p pre')
    then have "evs = pre' @ ConnectCall c # post" using eq by simp
    then have "ConnectionsSet (conn_name c) c \<in> set pre'"
      using assms(2) by (simp add: set_before_connect_def)
    then show ?thesis using Cons by simp
  qed
qed

lemma sbc_set_connect:
  assumes "set_before_connect evs"
  shows "set_before_connect (ConnectionsSet (conn_name c) c # ConnectCall c # evs)"
  unfolding set_before_connect_def
proof (intro allI impI)
  fix pre c' post
  assume eq: "ConnectionsSet (conn_name c) c # ConnectCall c # evs = pre @ ConnectCall c' # post"
  show "ConnectionsSet (conn_name c') c' \<in> set pre"
  proof (cases pre)
    case Nil
    then show ?thesis using eq by simp
  next
    case (Cons p pre')
    note outer = Cons
    then have p: "p = ConnectionsSet (conn_name c) c" and eq': "ConnectCall c # evs = pre' @ ConnectCall c' # post"
      using eq by simp_all
    show ?thesis
    proof (cases pre')
      case Nil
      then have "c' = c" using eq' by simp
      then show ?thesis using outer p by simp
    next
      case (Cons q pre'')
      then have "evs = pre'' @ ConnectCall c' # post" using eq' by simp
      then have "ConnectionsSet (conn_name c') c' \<in> set pre''"
        using assms by (simp add: set_before_connect_def)
      then show ?thesis using outer Cons by simp
    qed
  qed
qed

lemma sbc_append:
  assumes a: "set_before_connect a" and b: "set_before_connect b"
  shows "set_before_connect (a @ b)"
  unfolding set_before_connect_def
proof (intro allI impI)
  fix pre c post
  assume eq: "a @ b = pre @ ConnectCall c # post"
  then obtain us where
    "(a = pre @ us \<and> us @ b = ConnectCall c # post) \<or> (a @ us = pre \<and> b = us @ ConnectCall c # post)"
    unfolding append_eq_append_conv2 by blast
  then show "ConnectionsSet (conn_name c) c \<in> set pre"
  proof
    assume h: "a = pre @ us \<and> us @ b = ConnectCall c # post"
    show ?thesis
    proof (cases us)
      case Nil
      then have "b = [] @ ConnectCall c # post" using h by simp
      then have "ConnectionsSet (conn_name c) c \<in> set []"
        using b unfolding set_before_connect_def by blast
      then show ?thesis by simp
    next
      case (Cons u us')
      then have "a = pre @ ConnectCall c # us'" using h by simp
      then show ?thesis using a unfolding set_before_connect_def by blast
    qed
  next
    assume h: "a @ us = pre \<and> b = us @ ConnectCall c # post"
    then have "ConnectionsSet (conn_name c) c \<in> set us"
      using b unfolding set_before_connect_def by blast
    then show ?thesis using h by auto
  qed
qed

lemma connect_calls_append: "connect_calls (a @ b) = connect_calls a @ connect_calls b"
  by (induction a rule: connect_calls.induct) simp_all

lemma connection_sets_append: "connection_sets (a @ b) = connection_sets a @ connection_sets b"
  by (induction a rule: connection_sets.induct) simp_all

lemma start_entry_connections:
  "connections (start_entry E e s) =
     AList.update (fst e) \<lparr>conn_id = next_id s, conn_name = fst e, conn_config = snd e\<rparr> (connections s)"
  by (simp add: start_entry_def start_entry_try_def new_MCPConnection_def call_connect_def
        connections_set_def emit_def split: prod.splits option.splits)

lemma start_entry_config: "config (start_entry E e s) = config s"
  by (simp add: start_entry_def start_entry_try_def new_MCPConnection_def call_connect_def
        connections_set_def emit_def split: prod.splits option.splits)

lemma events_since_append: "trace s' = trace s @ evs \<Longrightarrow> events_since s s' = evs"
  by (simp add: events_since_def)

lemma start_entry_events:
  "\<exists>l code d. (\<forall>c. l \<noteq> ConnectCall c) \<and> (\<forall>n c. l \<noteq> ConnectionsSet n c) \<and>
     (trace (start_entry E e s) =
        trace s @ [l, ConnectionsSet (fst e) \<lparr>conn_id = next_id s, conn_name = fst e, conn_config = snd e\<rparr>,
                   ConnectCall \<lparr>conn_id = next_id s, conn_name = fst e, conn_config = snd e\<rparr>]
      \<or> trace (start_entry E e s) =
        trace s @ [l, ConnectionsSet (fst e) \<lparr>conn_id = next_id s, conn_name = fst e, conn_config = snd e\<rparr>,
                   ConnectCall \<lparr>conn_id = next_id s, conn_name = fst e, conn_config = snd e\<rparr>,
                   LogError code ''Failed to start server'' d])"
  by (auto simp add: start_entry_def start_entry_try_def new_MCPConnection_def call_connect_def
        connections_set_def emit_def split: prod.splits option.splits)

lemma start_entry_prefix:
  "trace (start_entry E e s) = trace s @ events_since s (start_entry E e s)"
  using start_entry_events [of E e s] by (auto simp add: events_since_def)

lemma start_entry_ordered: "set_before_connect (events_since s (start_entry E e s))"
  using start_entry_events [of E e s]
proof (elim exE conjE disjE)
  fix l code d
  assume l: "\<forall>c. l \<noteq> ConnectCall c"
    and t: "trace (start_entry E e s) =
        trace s @ [l, ConnectionsSet (fst e) \<lparr>conn_id = next_id s, conn_name = fst e, conn_config = snd e\<rparr>,
                   ConnectCall \<lparr>conn_id = next_id s, conn_name = fst e, conn_config = snd e\<rparr>]"
  have "set_before_connect [l, ConnectionsSet (fst e) \<lparr>conn_id = next_id s, conn_name = fst e, conn_config = snd e\<rparr>,
                   ConnectCall \<lparr>conn_id = next_id s, conn_name = fst e, conn_config = snd e\<rparr>]"
    using sbc_Cons [OF _ sbc_set_connect [OF sbc_Nil, of "\<lparr>conn_id = next_id s, conn_name = fst e, conn_config = snd e\<rparr>"], of l] l
    by simp
  then show ?thesis using t by (simp only: events_since_append)
next
  fix l code d
  assume l: "\<forall>c. l \<noteq> ConnectCall c"
    and t: "trace (start_entry E e s) =
        trace s @ [l, ConnectionsSet (fst e) \<lparr>conn_id = next_id s, conn_name = fst e, conn_config = snd e\<rparr>,
                   ConnectCall \<lparr>conn_id = next_id s, conn_name = fst e, conn_config = snd e\<rparr>,
                   LogError code ''Failed to start server'' d]"
  have "set_before_connect [LogError code ''Failed to start server'' d]"
    by (rule sbc_Cons [OF _ sbc_Nil]) simp
  then have "set_before_connect [l, ConnectionsSet (fst e) \<lparr>conn_id = next_id s, conn_name = fst e, conn_config = snd e\<rparr>,
                   ConnectCall \<lparr>conn_id = next_id s, conn_name = fst e, conn_config = snd e\<rparr>,
                   LogError code ''Failed to start server'' d]"
    using sbc_Cons [OF _ sbc_set_connect [of "[LogError code ''Failed to start server'' d]"
                "\<lparr>conn_id = next_id s, conn_name = fst e, conn_config = snd e\<rparr>"], of l] l
    by simp
  then show ?thesis using t by (simp only: events_since_append)
qed

lemma start_entry_calls:
  "connect_calls (events_since s (start_entry E e s)) =
     [\<lparr>conn_id = next_id s, conn_name = fst e, conn_config = snd e\<rparr>]"
  using start_entry_events [of E e s]
  by (elim exE conjE disjE) (simp_all add: events_since_def, (case_tac l; simp)+)

lemma start_entry_sets:
  "connection_sets (events_since s (start_entry E e s)) =
     [(fst e, \<lparr>conn_id = next_id s, conn_name = fst e, conn_config = snd e\<rparr>)]"
  using start_entry_events [of E e s]
  by (elim exE conjE disjE) (simp_all add: events_since_def, (case_tac l; simp)+)

lemma start_entries_config: "config (start_entries E servers s) = config s"
  by (induction servers arbitrary: s) (simp_all add: start_entry_config)

lemma start_entries_keys:
  "fst ` set (connections (start_entries E servers s)) = fst ` set (connections s) \<union> fst ` set servers"
  by (induction servers arbitrary: s) (auto simp add: start_entry_connections dom_update)

lemma start_entries_distinct:
  "distinct (map fst (connections s)) \<Longrightarrow> distinct (map fst (connections (start_entries E servers s)))"
  by (induction servers arbitrary: s) (simp_all add: start_entry_connections distinct_update)

lemma start_entries_prefix:
  "trace (start_entries E servers s) = trace s @ events_since s (start_entries E servers s)"
proof (induction servers arbitrary: s)
  case Nil
  show ?case by (simp add: events_since_def)
next
  case (Cons e servers)
  have h: "trace (start_entries E servers (start_entry E e s)) =
          trace s @ (events_since s (start_entry E e s)
            @ events_since (start_entry E e s) (start_entries E servers (start_entry E e s)))"
    using Cons.IH [of "start_entry E e s"] start_entry_prefix [of E e s] by simp
  have "events_since s (start_entries E servers (start_entry E e s)) =
          events_since s (start_entry E e s)
            @ events_since (start_entry E e s) (start_entries E servers (start_entry E e s))"
    using h by (rule events_since_append)
  then show ?case using h by simp
qed

lemma start_entries_events_Cons:
  "events_since s (start_entries E (e # servers) s) =
     events_since s (start_entry E e s)
       @ events_since (start_entry E e s) (start_entries E servers (start_entry E e s))"
proof -
  have "trace (start_entries E (e # servers) s) =
          trace s @ (events_since s (start_entry E e s)
            @ events_since (start_entry E e s) (start_entries E servers (start_entry E e s)))"
    using start_entries_prefix [of E servers "start_entry E e s"] start_entry_prefix [of E e s] by simp
  then show ?thesis by (rule events_since_append)
qed

lemma start_entries_ordered: "set_before_connect (events_since s (start_entries E servers s))"
proof (induction servers arbitrary: s)
  case Nil
  show ?case by (simp add: events_since_def sbc_Nil)
next
  case (Cons e servers)
  show ?case unfolding start_entries_events_Cons
    by (intro sbc_append start_entry_ordered Cons.IH)
qed

lemma start_entries_calls:
  "map (\<lambda>c. (conn_name c, conn_config c)) (connect_calls (events_since s (start_entries E servers s))) = servers"
proof (induction servers arbitrary: s)
  case Nil
  show ?case by (simp add: events_since_def)
next
  case (Cons e servers)
  show ?case unfolding start_entries_events_Cons connect_calls_append
    by (simp add: start_entry_calls Cons.IH)
qed

lemma start_entries_sets:
  "map (\<lambda>p. (fst p, conn_name (snd p), conn_config (snd p)))
       (connection_sets (events_since s (start_entries E servers s)))
     = map (\<lambda>e. (fst e, e)) servers"
proof (induction servers arbitrary: s)
  case Nil
  show ?case by (simp add: events_since_def)
next
  case (Cons e servers)
  show ?case unfolding start_entries_events_Cons connection_sets_append
    by (simp add: start_entry_sets Cons.IH)
qed

lemma start_entries_sets_calls:
  "connection_sets (events_since s (start_entries E servers s))
     = map (\<lambda>c. (conn_name c, c)) (connect_calls (events_since s (start_entries E servers s)))"
proof (induction servers arbitrary: s)
  case Nil
  show ?case by (simp add: events_since_def)
next
  case (Cons e servers)
  show ?case unfolding start_entries_events_Cons connection_sets_append connect_calls_append
    by (simp add: start_entry_sets start_entry_calls Cons.IH)
qed

lemma startConfiguredServers_state:
  "snd (startConfiguredServers E s) =
     start_entries E (server_entries (config s))
       (emit (Logged Info ''Starting configured MCP servers''
                [(''count'', JNum (int (length (server_entries (config s)))))]) s)"
  by (simp add: startConfiguredServers_def Let_def)

lemma startConfiguredServers_events:
  "events_since s (snd (startConfiguredServers E s)) =
     Logged Info ''Starting configured MCP servers'' [(''count'', JNum (int (length (server_entries (config s)))))]
     # events_since
         (emit (Logged Info ''Starting configured MCP servers''
                  [(''count'', JNum (int (length (server_entries (config s)))))]) s)
         (snd (startConfiguredServers E s))"
proof -
  define s0 where "s0 = emit (Logged Info ''Starting configured MCP servers''
                  [(''count'', JNum (int (length (server_entries (config s)))))]) s"
  have "trace (start_entries E (server_entries (config s)) s0) =
          trace s0 @ events_since s0 (start_entries E (server_entries (config s)) s0)"
    by (rule start_entries_prefix)
  then have "trace (start_entries E (server_entries (config s)) s0) =
          trace s @ (Logged Info ''Starting configured MCP servers'' [(''count'', JNum (int (length (server_entries (config s)))))]
            # events_since s0 (start_entries E (server_entries (config s)) s0))"
    by (simp add: s0_def emit_def)
  then have "events_since s (start_entries E (server_entries (config s)) s0) =
          Logged Info ''Starting configured MCP servers'' [(''count'', JNum (int (length (server_entries (config s)))))]
            # events_since s0 (start_entries E (server_entries (config s)) s0)"
    by (rule events_since_append)
  then show ?thesis unfolding startConfiguredServers_state s0_def .
qed

lemma start_entry_ext:
  "ext (start_entry E e s) =
     snd (conn_connect E \<lparr>conn_id = next_id s, conn_name = fst e, conn_config = snd e\<rparr> (ext s))"
  by (simp add: start_entry_def start_entry_try_def new_MCPConnection_def call_connect_def
        connections_set_def emit_def split: prod.splits option.splits)

lemma start_entry_next_id: "next_id (start_entry E e s) = Suc (next_id s)"
  by (simp add: start_entry_def start_entry_try_def new_MCPConnection_def call_connect_def
        connections_set_def emit_def split: prod.splits option.splits)

lemma start_entries_ext:
  "ext (start_entries E servers s) = connect_all E (handles_for (next_id s) servers) (ext s)"
  by (induction servers arbitrary: s) (simp_all add: start_entry_ext start_entry_next_id)

lemma start_entries_connections:
  "connections (start_entries E servers s) = enter_all (handles_for (next_id s) servers) (connections s)"
  by (induction servers arbitrary: s) (simp_all add: start_entry_connections start_entry_next_id)

lemma start_entries_handles:
  "connect_calls (events_since s (start_entries E servers s)) = handles_for (next_id s) servers"
proof (induction servers arbitrary: s)
  case Nil
  show ?case by (simp add: events_since_def)
next
  case (Cons e servers)
  show ?case unfolding start_entries_events_Cons connect_calls_append
    by (simp add: start_entry_calls Cons.IH start_entry_next_id)
qed

lemma handles_for_entries:
  "map (\<lambda>c. (conn_name c, conn_config c)) (handles_for n servers) = servers"
  by (induction servers arbitrary: n) simp_all

lemma length_update:
  "length (AList.update k v al) = (if k \<in> fst ` set al then length al else Suc (length al))"
  by (induction al) auto

lemma card_new_keys:
  assumes "finite R"
  shows "card (insert k R - K) = (if k \<in> K then card (R - K) else Suc (card (R - insert k K)))"
proof (cases "k \<in> K")
  case True
  then have "insert k R - K = R - K" by auto
  then show ?thesis using True by simp
next
  case False
  then have "insert k R - K = insert k (R - insert k K)" by auto
  moreover have "k \<notin> R - insert k K" by simp
  moreover have "finite (R - insert k K)" using assms by simp
  ultimately show ?thesis using False by simp
qed

lemma start_entries_length:
  "length (connections (start_entries E servers s)) =
     length (connections s) + card (fst ` set servers - fst ` set (connections s))"
proof (induction servers arbitrary: s)
  case Nil
  show ?case by simp
next
  case (Cons e servers)
  define s1 where "s1 = start_entry E e s"
  have k1: "fst ` set (connections s1) = insert (fst e) (fst ` set (connections s))"
    by (simp add: s1_def start_entry_connections dom_update)
  have l1: "length (connections s1) =
      (if fst e \<in> fst ` set (connections s) then length (connections s) else Suc (length (connections s)))"
    by (simp add: s1_def start_entry_connections length_update)
  have "length (connections (start_entries E servers s1)) =
     length (connections s1) + card (fst ` set servers - fst ` set (connections s1))"
    by (rule Cons.IH)
  moreover have "card (insert (fst e) (fst ` set servers) - fst ` set (connections s)) =
      (if fst e \<in> fst ` set (connections s) then card (fst ` set servers - fst ` set (connections s))
       else Suc (card (fst ` set servers - insert (fst e) (fst ` set (connections s)))))"
    by (rule card_new_keys) simp
  moreover have "fst e \<in> fst ` set (connections s) \<Longrightarrow>
      insert (fst e) (fst ` set (connections s)) = fst ` set (connections s)"
    by auto
  ultimately show ?case
    unfolding k1 l1 by (simp add: s1_def [symmetric])
qed

lemma emit_frame:
  "next_id (emit ev s) = next_id s" "ext (emit ev s) = ext s"
  "connections (emit ev s) = connections s" "config (emit ev s) = config s"
  by (simp_all add: emit_def)

text \<open>
  C1, as the claim states it, fails in its count. A hub with a configuration of two
  servers holds a connection \<open>notes\<close> that \<open>connectServer\<close> added and the configuration
  does not name. \<open>startConfiguredServers\<close> returns without raising, and
  \<open>getAllServerStatuses\<close> then returns three entries, not two: nothing removes a held
  name that is not configured.
\<close>

theorem startConfiguredServers_counts_held_names:
  "fst (startConfiguredServers (example_collaborators [''search''] None None) adhoc_hub) = Inr ()
   \<and> length (server_entries (config adhoc_hub)) = 2
   \<and> length (getAllServerStatuses (example_collaborators [''search''] None None)
               (snd (startConfiguredServers (example_collaborators [''search''] None None) adhoc_hub))) = 3"
  by (simp add: adhoc_hub_def fresh_hub_def new_MCPHub_def two_servers_def server_entries_def
        connectServer_def new_MCPConnection_def call_connect_def connections_set_def emit_def
        startConfiguredServers_def start_entry_def start_entry_try_def getAllServerStatuses_def
        example_collaborators_def is_path_def Let_def enabled_server_def disabled_server_def)

text \<open>
  C1, amended. Whatever subset of the connects fails, \<open>startConfiguredServers\<close> returns
  without raising. Connect is called once for each entry of the server table, in order,
  on the handle made for it, and every call comes after that handle was entered into the
  map under its name; the hidden state of the collaborators is the one those calls leave.
  Afterwards the keys of the map are the names held before together with the configured
  names, and \<open>getAllServerStatuses\<close> returns one entry for each connection held before and
  one for each configured name that was not held: exactly N entries for a server table of
  N entries under N names when the hub held no name outside the configuration, as a newly
  constructed hub does.
\<close>

theorem startConfiguredServers_best_effort:
  "fst (startConfiguredServers E s) = Inr ()
   \<and> set_before_connect (events_since s (snd (startConfiguredServers E s)))
   \<and> connect_calls (events_since s (snd (startConfiguredServers E s)))
       = handles_for (next_id s) (server_entries (config s))
   \<and> map conn_name (handles_for (next_id s) (server_entries (config s)))
       = map fst (server_entries (config s))
   \<and> ext (snd (startConfiguredServers E s))
       = connect_all E (handles_for (next_id s) (server_entries (config s))) (ext s)
   \<and> fst ` set (connections (snd (startConfiguredServers E s)))
       = fst ` set (connections s) \<union> fst ` set (server_entries (config s))
   \<and> length (getAllServerStatuses E (snd (startConfiguredServers E s)))
       = length (connections s)
         + card (fst ` set (server_entries (config s)) - fst ` set (connections s))
   \<and> (distinct (map fst (server_entries (config s))) \<and> distinct (map fst (connections s))
        \<and> fst ` set (connections s) \<subseteq> fst ` set (server_entries (config s)) \<longrightarrow>
        length (getAllServerStatuses E (snd (startConfiguredServers E s)))
          = length (server_entries (config s)))"
proof -
  define servers where "servers = server_entries (config s)"
  define s0 where "s0 = emit (Logged Info ''Starting configured MCP servers''
                  [(''count'', JNum (int (length servers)))]) s"
  define s' where "s' = start_entries E servers s0"
  have st: "snd (startConfiguredServers E s) = s'"
    unfolding s'_def s0_def servers_def by (rule startConfiguredServers_state)
  have c0: "connections s0 = connections s" and n0: "next_id s0 = next_id s" and x0: "ext s0 = ext s"
    by (simp_all add: s0_def emit_frame)
  have ev: "events_since s s' = Logged Info ''Starting configured MCP servers'' [(''count'', JNum (int (length servers)))]
              # events_since s0 s'"
    using startConfiguredServers_events [of s E] unfolding st servers_def [symmetric] s0_def [symmetric] .
  have cc: "connect_calls (events_since s s') = connect_calls (events_since s0 s')"
    by (simp add: ev)
  have 1: "fst (startConfiguredServers E s) = Inr ()"
    by (simp add: startConfiguredServers_def Let_def)
  have 2: "set_before_connect (events_since s s')"
    unfolding ev by (rule sbc_Cons) (simp_all add: s'_def start_entries_ordered)
  have 3: "connect_calls (events_since s s') = handles_for (next_id s) servers"
    by (subst cc) (simp add: s'_def start_entries_handles n0)
  have 4: "map conn_name (handles_for (next_id s) servers) = map fst servers"
    using arg_cong [OF handles_for_entries [of "next_id s" servers], of "map fst"]
    by (simp add: comp_def)
  have 5: "ext s' = connect_all E (handles_for (next_id s) servers) (ext s)"
    by (simp add: s'_def start_entries_ext n0 x0)
  have keys: "fst ` set (connections s') = fst ` set (connections s) \<union> fst ` set servers"
    by (simp add: s'_def start_entries_keys c0)
  have len: "length (connections s') = length (connections s) + card (fst ` set servers - fst ` set (connections s))"
    by (simp add: s'_def start_entries_length c0)
  have 7: "length (getAllServerStatuses E s') =
             length (connections s) + card (fst ` set servers - fst ` set (connections s))"
    by (simp add: getAllServerStatuses_def len)
  have 8: "length (getAllServerStatuses E s') = length servers"
    if d1: "distinct (map fst servers)" and d2: "distinct (map fst (connections s))"
      and sub: "fst ` set (connections s) \<subseteq> fst ` set servers"
  proof -
    have a: "length (connections s) = card (fst ` set (connections s))"
      using d2 by (metis distinct_card length_map set_map)
    have b: "length servers = card (fst ` set servers)"
      using d1 by (metis distinct_card length_map set_map)
    have "card (fst ` set servers - fst ` set (connections s)) =
            card (fst ` set servers) - card (fst ` set (connections s))"
      using sub by (intro card_Diff_subset) simp_all
    moreover have "card (fst ` set (connections s)) \<le> card (fst ` set servers)"
      using sub by (intro card_mono) simp_all
    ultimately show ?thesis unfolding 7 a b by simp
  qed
  show ?thesis using 1 2 3 4 5 keys 7 8 unfolding st servers_def by blast
qed

theorem startConfiguredServers_best_effort_witness:
  "fst (startConfiguredServers (example_collaborators [''search''] None None) fresh_hub) = Inr ()
   \<and> set_before_connect (events_since fresh_hub (snd (startConfiguredServers (example_collaborators [''search''] None None) fresh_hub)))
   \<and> length (getAllServerStatuses (example_collaborators [''search''] None None)
               (snd (startConfiguredServers (example_collaborators [''search''] None None) fresh_hub))) = 2"
  using startConfiguredServers_best_effort [of "example_collaborators [''search''] None None" fresh_hub]
  by (simp add: fresh_hub_def new_MCPHub_def two_servers_def server_entries_def)

text \<open>
  C2. \<open>startConfiguredServers\<close> makes one handle for every entry of the server table, from
  the entry's name and configuration, enters it into the map under that name and invokes
  its connect: the calls of connect are exactly the handles of the entries in order, the
  hidden state of the collaborators afterwards is the one that running connect on each of
  them in turn leaves, and the map is the one that entering each of them leaves. None of
  this looks at the disabled flag. In particular, for an entry whose disabled flag is
  true, the name is a key of the map afterwards and one of the handles that connect ran
  on carries its name and configuration.
\<close>

theorem disabled_servers_are_connected:
  "connect_calls (events_since s (snd (startConfiguredServers E s)))
     = handles_for (next_id s) (server_entries (config s))
   \<and> connection_sets (events_since s (snd (startConfiguredServers E s)))
     = map (\<lambda>c. (conn_name c, c)) (handles_for (next_id s) (server_entries (config s)))
   \<and> map (\<lambda>c. (conn_name c, conn_config c)) (handles_for (next_id s) (server_entries (config s)))
     = server_entries (config s)
   \<and> ext (snd (startConfiguredServers E s))
     = connect_all E (handles_for (next_id s) (server_entries (config s))) (ext s)
   \<and> connections (snd (startConfiguredServers E s))
     = enter_all (handles_for (next_id s) (server_entries (config s))) (connections s)
   \<and> (\<forall>name serverConfig.
        (name, serverConfig) \<in> set (server_entries (config s)) \<and> disabled serverConfig = Some True \<longrightarrow>
        name \<in> fst ` set (connections (snd (startConfiguredServers E s)))
        \<and> (\<exists>c \<in> set (handles_for (next_id s) (server_entries (config s))).
              conn_name c = name \<and> conn_config c = serverConfig))"
proof -
  define servers where "servers = server_entries (config s)"
  define s0 where "s0 = emit (Logged Info ''Starting configured MCP servers''
                  [(''count'', JNum (int (length servers)))]) s"
  define s' where "s' = start_entries E servers s0"
  have st: "snd (startConfiguredServers E s) = s'"
    unfolding s'_def s0_def servers_def by (rule startConfiguredServers_state)
  have c0: "connections s0 = connections s" and n0: "next_id s0 = next_id s" and x0: "ext s0 = ext s"
    by (simp_all add: s0_def emit_frame)
  have ev: "events_since s s' = Logged Info ''Starting configured MCP servers'' [(''count'', JNum (int (length servers)))]
              # events_since s0 s'"
    using startConfiguredServers_events [of s E] unfolding st servers_def [symmetric] s0_def [symmetric] .
  have cc: "connect_calls (events_since s s') = connect_calls (events_since s0 s')"
    by (simp add: ev)
  have cs: "connection_sets (events_since s s') = connection_sets (events_since s0 s')"
    by (simp add: ev)
  have 1: "connect_calls (events_since s s') = handles_for (next_id s) servers"
    by (subst cc) (simp add: s'_def start_entries_handles n0)
  have 2: "connection_sets (events_since s s') = map (\<lambda>c. (conn_name c, c)) (handles_for (next_id s) servers)"
    by (subst cs) (simp add: s'_def start_entries_sets_calls start_entries_handles n0)
  have 3: "map (\<lambda>c. (conn_name c, conn_config c)) (handles_for (next_id s) servers) = servers"
    by (rule handles_for_entries)
  have 4: "ext s' = connect_all E (handles_for (next_id s) servers) (ext s)"
    by (simp add: s'_def start_entries_ext n0 x0)
  have 5: "connections s' = enter_all (handles_for (next_id s) servers) (connections s)"
    by (simp add: s'_def start_entries_connections n0 c0)
  have keys: "fst ` set servers \<subseteq> fst ` set (connections s')"
    unfolding s'_def start_entries_keys by blast
  have 6: "name \<in> fst ` set (connections s')
        \<and> (\<exists>c \<in> set (handles_for (next_id s) servers). conn_name c = name \<and> conn_config c = serverConfig)"
    if m: "(name, serverConfig) \<in> set servers" for name serverConfig
  proof -
    have "name \<in> fst ` set (connections s')" using m keys by force
    moreover have "(name, serverConfig) \<in> set (map (\<lambda>c. (conn_name c, conn_config c)) (handles_for (next_id s) servers))"
      using m by (simp only: 3)
    then have "\<exists>c \<in> set (handles_for (next_id s) servers). conn_name c = name \<and> conn_config c = serverConfig"
      by auto
    ultimately show ?thesis by blast
  qed
  show ?thesis using 1 2 3 4 5 6 unfolding st servers_def by blast
qed

theorem disabled_servers_are_connected_witness:
  "ext (snd (startConfiguredServers (recording_collaborators [''search'']) recording_hub))
     = [''files'', ''search'']
   \<and> ''search'' \<in> fst ` set (connections (snd (startConfiguredServers (recording_collaborators [''search'']) recording_hub)))
   \<and> (\<exists>c \<in> set (handles_for 0 two_servers). conn_name c = ''search'' \<and> conn_config c = disabled_server)"
proof -
  have 1: "ext (snd (startConfiguredServers (recording_collaborators [''search'']) recording_hub))
     = [''files'', ''search'']"
    using disabled_servers_are_connected [of recording_hub "recording_collaborators [''search'']",
        THEN conjunct2, THEN conjunct2, THEN conjunct2, THEN conjunct1]
    by (simp add: recording_hub_def new_MCPHub_def two_servers_def server_entries_def
          recording_collaborators_def)
  have 2: "''search'' \<in> fst ` set (connections (snd (startConfiguredServers (recording_collaborators [''search'']) recording_hub)))
   \<and> (\<exists>c \<in> set (handles_for 0 two_servers). conn_name c = ''search'' \<and> conn_config c = disabled_server)"
    using disabled_servers_are_connected [of recording_hub "recording_collaborators [''search'']",
        THEN conjunct2, THEN conjunct2, THEN conjunct2, THEN conjunct2, THEN conjunct2,
        rule_format, of "''search''" disabled_server]
    by (simp add: recording_hub_def new_MCPHub_def two_servers_def server_entries_def disabled_server_def)
  show ?thesis using 1 2 by blast
qed

section \<open>Error wrapping in initialize and updateConfig\<close>



section \<open>stopServer and startServer\<close>

text \<open>
  C10. Let the configuration hold an entry for the name while the hub holds no connection
  for it, and let the configuration manager accept the update. Then \<open>stopServer\<close> with
  \<open>disable\<close> set fails with the ServerError \<open>Server connection not found\<close> after it has
  set the entry's disabled flag and handed the changed document to the manager: the
  update call is in the trace, the manager's new state and document are kept, and nothing
  undoes them. \<open>startServer\<close> in the same state fails with the same ServerError and leaves
  the hub, its configuration included, untouched.
\<close>

theorem stopServer_disables_before_lookup:
  assumes "config s = Some cfg"
    and "server_entry cfg name = Some serverConfig"
    and "map_of (connections s) name = None"
    and "cm_updateConfig E (ConfigObject (set_disabled name True cfg)) (ext s) = (Inr doc, x)"
  shows "stopServer E name True s =
           (Inl (ServerError ''Server connection not found'' [(''server'', JStr name)]),
            s\<lparr>config := doc, ext := x,
              trace := trace s @ [UpdateConfigCall (ConfigObject (set_disabled name True cfg))]\<rparr>)
         \<and> map_option disabled (server_entry (set_disabled name True cfg) name) = Some (Some True)
         \<and> startServer E name s =
           (Inl (ServerError ''Server connection not found'' [(''server'', JStr name)]), s)"
proof -
  have "stopServer E name True s =
           (Inl (ServerError ''Server connection not found'' [(''server'', JStr name)]),
            s\<lparr>config := doc, ext := x,
              trace := trace s @ [UpdateConfigCall (ConfigObject (set_disabled name True cfg))]\<rparr>)"
    using assms by (simp add: stopServer_def call_updateConfig_def emit_def)
  moreover have "map_option disabled (server_entry (set_disabled name True cfg) name) = Some (Some True)"
    using assms(2) by (auto simp add: server_entry_def set_disabled_def map_of_map_entry split: option.splits)
  moreover have "startServer E name s =
           (Inl (ServerError ''Server connection not found'' [(''server'', JStr name)]), s)"
    using assms by (simp add: startServer_def)
  ultimately show ?thesis by blast
qed

theorem stopServer_disables_before_lookup_witness:
  "stopServer (example_collaborators [] None None) ''files'' True unconnected_hub =
     (Inl (ServerError ''Server connection not found'' [(''server'', JStr ''files'')]),
      unconnected_hub\<lparr>config := Some \<lparr>mcpServers = Some [(''files'', disabled_server)]\<rparr>,
        trace := [UpdateConfigCall (ConfigObject \<lparr>mcpServers = Some [(''files'', disabled_server)]\<rparr>)]\<rparr>)
   \<and> startServer (example_collaborators [] None None) ''files'' unconnected_hub =
     (Inl (ServerError ''Server connection not found'' [(''server'', JStr ''files'')]), unconnected_hub)"
  using stopServer_disables_before_lookup [of unconnected_hub "\<lparr>mcpServers = Some [(''files'', enabled_server)]\<rparr>"
      "''files''" enabled_server "example_collaborators [] None None"
      "Some \<lparr>mcpServers = Some [(''files'', disabled_server)]\<rparr>" "()"]
  by (simp add: unconnected_hub_def example_collaborators_def server_entry_def set_disabled_def
        enabled_server_def disabled_server_def)

section \<open>The lock protocol\<close>

lemma withLock_from_step:
  "attempt < maxRetries \<Longrightarrow>
   withLock_from P fn attempt w =
     (case lock_try P fn w of
        (None, w1) \<Rightarrow> (None, w1)
      | (Some error, w1) \<Rightarrow>
          (if err_code error = Some ''EEXIST''
           then withLock_from P fn (Suc attempt) (sleep retryDelay w1)
           else (Some error, w1)))"
  by (subst withLock_from.simps) simp

lemma withLock_from_exhausted:
  "\<not> attempt < maxRetries \<Longrightarrow> withLock_from P fn attempt w = (Some lock_timeout, w)"
  by (subst withLock_from.simps) simp

lemma create_lock_fault:
  "faults w = Some e # rest \<Longrightarrow>
   create_lock P w = (Some e, w\<lparr>faults := rest, events := events w @ [CreateLock (Some e)]\<rparr>)"
  by (simp add: create_lock_def next_fault_def observe_def)

lemma create_lock_free:
  "faults w = None # rest \<or> (faults w = [] \<and> rest = []) \<Longrightarrow> lock_file w = None \<Longrightarrow>
   create_lock P w =
     (None, w\<lparr>lock_file := Some (proc_pid P), faults := rest, events := events w @ [CreateLock None]\<rparr>)"
  by (auto simp add: create_lock_def next_fault_def observe_def)

lemma busy_events_Cons:
  "busy_events (b # busy) = CreateLock (Some b) # Sleep retryDelay # busy_events busy"
  by (simp add: busy_events_def)

lemma busy_events_Nil: "busy_events [] = []"
  by (simp add: busy_events_def)

lemma withLock_from_busy:
  assumes "\<forall>b \<in> set busy. err_code b = Some ''EEXIST''"
    and "attempt + length busy \<le> maxRetries"
    and "faults w = map Some busy @ rest"
  shows "withLock_from P fn attempt w =
           withLock_from P fn (attempt + length busy)
             (w\<lparr>faults := rest, clock := clock w + retryDelay * length busy,
               events := events w @ busy_events busy\<rparr>)"
  using assms
proof (induction busy arbitrary: attempt w)
  case Nil
  then have "w\<lparr>faults := rest, clock := clock w + retryDelay * length ([]::js_error list),
               events := events w @ busy_events []\<rparr> = w"
    by (simp add: busy_events_Nil)
  then show ?case by simp
next
  case (Cons b busy)
  define w1 where "w1 = sleep retryDelay (w\<lparr>faults := map Some busy @ rest, events := events w @ [CreateLock (Some b)]\<rparr>)"
  have lt: "attempt < maxRetries" using Cons.prems(2) by simp
  have c: "create_lock P w = (Some b, w\<lparr>faults := map Some busy @ rest, events := events w @ [CreateLock (Some b)]\<rparr>)"
    using Cons.prems(3) by (intro create_lock_fault) simp
  have b: "err_code b = Some ''EEXIST''" using Cons.prems(1) by simp
  have step: "withLock_from P fn attempt w = withLock_from P fn (Suc attempt) w1"
    unfolding withLock_from_step [OF lt] lock_try_def c w1_def using b by simp
  have f1: "faults w1 = map Some busy @ rest" by (simp add: w1_def sleep_def observe_def)
  have "withLock_from P fn (Suc attempt) w1 =
          withLock_from P fn (Suc attempt + length busy)
             (w1\<lparr>faults := rest, clock := clock w1 + retryDelay * length busy,
               events := events w1 @ busy_events busy\<rparr>)"
    using Cons.prems(1) Cons.prems(2) f1 by (intro Cons.IH) simp_all
  moreover have "w1\<lparr>faults := rest, clock := clock w1 + retryDelay * length busy,
               events := events w1 @ busy_events busy\<rparr>
       = w\<lparr>faults := rest, clock := clock w + retryDelay * length (b # busy),
               events := events w @ busy_events (b # busy)\<rparr>"
    by (simp add: w1_def sleep_def observe_def busy_events_Cons)
  ultimately show ?case using step by simp
qed

lemma withLock_timeout:
  assumes "\<forall>b \<in> set busy. err_code b = Some ''EEXIST''"
    and "length busy = maxRetries"
    and "faults w = map Some busy @ rest"
  shows "withLock P fn w =
           (Some lock_timeout,
            w\<lparr>faults := rest, clock := clock w + retryDelay * maxRetries,
              events := events w @ busy_events busy\<rparr>)"
proof -
  have "withLock_from P fn 0 w =
           withLock_from P fn (0 + length busy)
             (w\<lparr>faults := rest, clock := clock w + retryDelay * length busy,
               events := events w @ busy_events busy\<rparr>)"
    using assms by (intro withLock_from_busy) simp_all
  then show ?thesis
    unfolding withLock_def using assms(2) by (simp add: withLock_from_exhausted)
qed

lemma withLock_other_error:
  assumes "\<forall>b \<in> set busy. err_code b = Some ''EEXIST''"
    and "length busy < maxRetries"
    and "faults w = map Some busy @ Some e # rest"
    and "err_code e \<noteq> Some ''EEXIST''"
  shows "withLock P fn w =
           (Some e,
            w\<lparr>faults := rest, clock := clock w + retryDelay * length busy,
              events := events w @ busy_events busy @ [CreateLock (Some e)]\<rparr>)"
proof -
  define w1 where "w1 = w\<lparr>faults := Some e # rest, clock := clock w + retryDelay * length busy,
               events := events w @ busy_events busy\<rparr>"
  have "withLock_from P fn 0 w = withLock_from P fn (0 + length busy) w1"
    unfolding w1_def using assms by (intro withLock_from_busy) simp_all
  moreover have "create_lock P w1 = (Some e, w1\<lparr>faults := rest, events := events w1 @ [CreateLock (Some e)]\<rparr>)"
    by (intro create_lock_fault) (simp add: w1_def)
  ultimately show ?thesis
    unfolding withLock_def using assms(2) assms(4)
    by (simp add: withLock_from_step lock_try_def w1_def)
qed

lemma withLock_acquired:
  assumes "\<forall>b \<in> set busy. err_code b = Some ''EEXIST''"
    and "length busy < maxRetries"
    and "faults w = map Some busy @ None # rest \<or> (faults w = map Some busy \<and> rest = [])"
    and "lock_file w = None"
  shows "withLock P fn w =
           (case fst (fn (acquired P busy rest w)) of
              None \<Rightarrow> (None, snd (unlink_lock (snd (fn (acquired P busy rest w)))))
            | Some error \<Rightarrow>
                if err_code error = Some ''EEXIST''
                then withLock_from P fn (Suc (length busy))
                       (sleep retryDelay (snd (unlink_lock (snd (fn (acquired P busy rest w))))))
                else (Some error, snd (unlink_lock (snd (fn (acquired P busy rest w))))))"
proof -
  define f where "f = (if faults w = map Some busy @ None # rest then None # rest else [])"
  define w1 where "w1 = w\<lparr>faults := f, clock := clock w + retryDelay * length busy,
               events := events w @ busy_events busy\<rparr>"
  have fw: "faults w = map Some busy @ f" using assms(3) by (auto simp: f_def)
  have "withLock_from P fn 0 w = withLock_from P fn (0 + length busy) w1"
    unfolding w1_def using assms(1,2) fw by (intro withLock_from_busy) simp_all
  moreover have "create_lock P w1 =
     (None, w1\<lparr>lock_file := Some (proc_pid P), faults := rest, events := events w1 @ [CreateLock None]\<rparr>)"
    using assms(3,4) by (intro create_lock_free) (auto simp add: w1_def f_def)
  moreover have "w1\<lparr>lock_file := Some (proc_pid P), faults := rest, events := events w1 @ [CreateLock None]\<rparr>
      = acquired P busy rest w"
    by (simp add: w1_def acquired_def)
  ultimately show ?thesis
    unfolding withLock_def using assms(2)
    by (simp add: withLock_from_step lock_try_def split: prod.splits option.splits)
qed

lemma unlink_lock_events:
  "\<exists>u. events (snd (unlink_lock w)) = events w @ [UnlinkLock u]"
  by (auto simp add: unlink_lock_def next_fault_def observe_def split: list.splits option.splits)

lemma unlink_lock_removes:
  "faults w = [] \<or> (\<exists>rest. faults w = None # rest) \<Longrightarrow> lock_file (snd (unlink_lock w)) = None"
  by (auto simp add: unlink_lock_def next_fault_def observe_def split: list.splits option.splits)

lemma withLock_from_stale:
  assumes "lock_file w = Some holder" and "faults w = []" and "attempt + n = maxRetries"
  shows "withLock_from P fn attempt w =
           (Some lock_timeout,
            w\<lparr>clock := clock w + retryDelay * n,
              events := events w @ busy_events (replicate n (fs_error ''EEXIST''))\<rparr>)"
  using assms
proof (induction n arbitrary: attempt w)
  case 0
  then have "\<not> attempt < maxRetries" by simp
  then show ?case by (simp add: withLock_from_exhausted busy_events_Nil)
next
  case (Suc n)
  define w1 where "w1 = sleep retryDelay (w\<lparr>events := events w @ [CreateLock (Some (fs_error ''EEXIST''))]\<rparr>)"
  have lt: "attempt < maxRetries" using Suc.prems(3) by simp
  have c: "create_lock P w = (Some (fs_error ''EEXIST''), w\<lparr>events := events w @ [CreateLock (Some (fs_error ''EEXIST''))]\<rparr>)"
    using Suc.prems(1,2) by (simp add: create_lock_def next_fault_def observe_def)
  have step: "withLock_from P fn attempt w = withLock_from P fn (Suc attempt) w1"
    unfolding withLock_from_step [OF lt] lock_try_def c w1_def by (simp add: fs_error_def)
  have "withLock_from P fn (Suc attempt) w1 =
           (Some lock_timeout,
            w1\<lparr>clock := clock w1 + retryDelay * n,
              events := events w1 @ busy_events (replicate n (fs_error ''EEXIST''))\<rparr>)"
    using Suc.prems by (intro Suc.IH) (simp_all add: w1_def sleep_def observe_def)
  moreover have "w1\<lparr>clock := clock w1 + retryDelay * n,
              events := events w1 @ busy_events (replicate n (fs_error ''EEXIST''))\<rparr>
      = w\<lparr>clock := clock w + retryDelay * Suc n,
              events := events w @ busy_events (replicate (Suc n) (fs_error ''EEXIST''))\<rparr>"
    by (simp add: w1_def sleep_def observe_def busy_events_Cons)
  ultimately show ?case using step by simp
qed

text \<open>
  C9. \<open>maxRetries\<close> is 10 and \<open>retryDelay\<close> is 50. Let the creations in \<open>busy\<close> each fail
  with the code EEXIST (the file exists). Every such failure is followed by a wait of
  \<open>retryDelay\<close> and another attempt: the events are \<open>busy_events busy\<close> and the clock
  advances by \<open>retryDelay\<close> for each.
  \<^item> After \<open>maxRetries\<close> such failures, from the script or because a lock file that
    nobody removes is there, \<open>withLock\<close> fails with the lock-timeout error; the critical
    section has not run.
  \<^item> A creation that fails with any other code ends \<open>withLock\<close> at once with that error:
    no wait and no further attempt follow it.
  \<^item> When a creation succeeds, the critical section runs in the state \<open>acquired\<close>, and
    the unlink of the lock file is called on the state it leaves, whether it returned
    normally or failed; the lock file is then gone unless the unlink itself is made to
    fail, which is ignored. The outcome of the critical section is the outcome of
    \<open>withLock\<close>, except that a failure of the critical section that itself carries the
    code EEXIST sends the loop, after the unlink, into its next attempt.
\<close>

theorem lock_protocol:
  assumes "\<forall>b \<in> set busy. err_code b = Some ''EEXIST''"
  shows "maxRetries = 10 \<and> retryDelay = 50
   \<and> (length busy = maxRetries \<and> faults w = map Some busy @ rest \<longrightarrow>
        withLock P fn w =
          (Some lock_timeout,
           w\<lparr>faults := rest, clock := clock w + retryDelay * maxRetries,
             events := events w @ busy_events busy\<rparr>))
   \<and> (lock_file w \<noteq> None \<and> faults w = [] \<longrightarrow>
        withLock P fn w =
          (Some lock_timeout,
           w\<lparr>clock := clock w + retryDelay * maxRetries,
             events := events w @ busy_events (replicate maxRetries (fs_error ''EEXIST''))\<rparr>))
   \<and> (length busy < maxRetries \<and> faults w = map Some busy @ Some e # rest
        \<and> err_code e \<noteq> Some ''EEXIST'' \<longrightarrow>
        withLock P fn w =
          (Some e,
           w\<lparr>faults := rest, clock := clock w + retryDelay * length busy,
             events := events w @ busy_events busy @ [CreateLock (Some e)]\<rparr>))
   \<and> (length busy < maxRetries \<and> faults w = map Some busy @ None # rest \<and> lock_file w = None \<longrightarrow>
        (\<exists>u. events (snd (unlink_lock (snd (fn (acquired P busy rest w)))))
                = events (snd (fn (acquired P busy rest w))) @ [UnlinkLock u])
        \<and> (faults (snd (fn (acquired P busy rest w))) = []
             \<or> (\<exists>rest'. faults (snd (fn (acquired P busy rest w))) = None # rest') \<longrightarrow>
            lock_file (snd (unlink_lock (snd (fn (acquired P busy rest w))))) = None)
        \<and> withLock P fn w =
            (case fst (fn (acquired P busy rest w)) of
               None \<Rightarrow> (None, snd (unlink_lock (snd (fn (acquired P busy rest w)))))
             | Some error \<Rightarrow>
                 if err_code error = Some ''EEXIST''
                 then withLock_from P fn (Suc (length busy))
                        (sleep retryDelay (snd (unlink_lock (snd (fn (acquired P busy rest w))))))
                 else (Some error, snd (unlink_lock (snd (fn (acquired P busy rest w)))))))"
proof -
  have 0: "maxRetries = 10 \<and> retryDelay = 50" by (simp add: maxRetries_def retryDelay_def)
  have 1: "length busy = maxRetries \<and> faults w = map Some busy @ rest \<longrightarrow>
        withLock P fn w =
          (Some lock_timeout,
           w\<lparr>faults := rest, clock := clock w + retryDelay * maxRetries,
             events := events w @ busy_events busy\<rparr>)"
    using withLock_timeout [OF assms] by blast
  have 2: "lock_file w \<noteq> None \<and> faults w = [] \<longrightarrow>
        withLock P fn w =
          (Some lock_timeout,
           w\<lparr>clock := clock w + retryDelay * maxRetries,
             events := events w @ busy_events (replicate maxRetries (fs_error ''EEXIST''))\<rparr>)"
  proof (intro impI, elim conjE)
    assume "lock_file w \<noteq> None" and f: "faults w = []"
    then obtain holder where "lock_file w = Some holder" by blast
    then show "withLock P fn w =
          (Some lock_timeout,
           w\<lparr>clock := clock w + retryDelay * maxRetries,
             events := events w @ busy_events (replicate maxRetries (fs_error ''EEXIST''))\<rparr>)"
      unfolding withLock_def using f by (intro withLock_from_stale) simp_all
  qed
  have 3: "length busy < maxRetries \<and> faults w = map Some busy @ Some e # rest
        \<and> err_code e \<noteq> Some ''EEXIST'' \<longrightarrow>
        withLock P fn w =
          (Some e,
           w\<lparr>faults := rest, clock := clock w + retryDelay * length busy,
             events := events w @ busy_events busy @ [CreateLock (Some e)]\<rparr>)"
    using withLock_other_error [OF assms] by blast
  have 4: "length busy < maxRetries \<and> faults w = map Some busy @ None # rest \<and> lock_file w = None \<longrightarrow>
        withLock P fn w =
            (case fst (fn (acquired P busy rest w)) of
               None \<Rightarrow> (None, snd (unlink_lock (snd (fn (acquired P busy rest w)))))
             | Some error \<Rightarrow>
                 if err_code error = Some ''EEXIST''
                 then withLock_from P fn (Suc (length busy))
                        (sleep retryDelay (snd (unlink_lock (snd (fn (acquired P busy rest w))))))
                 else (Some error, snd (unlink_lock (snd (fn (acquired P busy rest w))))))"
    using withLock_acquired [OF assms, of w rest P fn] by blast
  have 5: "\<exists>u. events (snd (unlink_lock (snd (fn (acquired P busy rest w)))))
                = events (snd (fn (acquired P busy rest w))) @ [UnlinkLock u]"
    by (rule unlink_lock_events)
  have 6: "faults (snd (fn (acquired P busy rest w))) = []
             \<or> (\<exists>rest'. faults (snd (fn (acquired P busy rest w))) = None # rest') \<longrightarrow>
            lock_file (snd (unlink_lock (snd (fn (acquired P busy rest w))))) = None"
    using unlink_lock_removes by blast
  show ?thesis using 0 1 2 3 4 5 6 by blast
qed

theorem lock_protocol_witness:
  "withLock example_process (register_critical ''/home/dev/app'' (snd other_row))
          (example_registry [] (replicate 10 (Some busy_lock)))
       = (Some lock_timeout,
          (example_registry [] []) \<lparr>clock := 500, events := busy_events (replicate 10 busy_lock)\<rparr>)
   \<and> withLock example_process (register_critical ''/home/dev/app'' (snd other_row))
          ((example_registry [] []) \<lparr>lock_file := Some 77\<rparr>)
       = (Some lock_timeout,
          (example_registry [] []) \<lparr>lock_file := Some 77, clock := 500,
             events := busy_events (replicate 10 busy_lock)\<rparr>)
   \<and> withLock example_process (register_critical ''/home/dev/app'' (snd other_row))
          (example_registry [] [Some busy_lock, Some permission_denied])
       = (Some permission_denied,
          (example_registry [] []) \<lparr>clock := 50,
             events := [CreateLock (Some busy_lock), Sleep 50, CreateLock (Some permission_denied)]\<rparr>)
   \<and> withLock example_process (\<lambda>w. (Some SyntaxError, w)) (example_registry [] [Some busy_lock, None])
       = (Some SyntaxError,
          (example_registry [] []) \<lparr>clock := 50,
             events := [CreateLock (Some busy_lock), Sleep 50, CreateLock None, UnlinkLock None]\<rparr>)"
proof -
  have b: "\<forall>b \<in> set (replicate 10 busy_lock). err_code b = Some ''EEXIST''"
    by (simp add: busy_lock_def fs_error_def)
  have b1: "\<forall>b \<in> set [busy_lock]. err_code b = Some ''EEXIST''"
    by (simp add: busy_lock_def fs_error_def)
  have b0: "\<forall>b \<in> set ([]::js_error list). err_code b = Some ''EEXIST''"
    by simp
  have 1: "withLock example_process (register_critical ''/home/dev/app'' (snd other_row))
          (example_registry [] (replicate 10 (Some busy_lock)))
       = (Some lock_timeout,
          (example_registry [] []) \<lparr>clock := 500, events := busy_events (replicate 10 busy_lock)\<rparr>)"
    using lock_protocol [OF b, of "example_registry [] (replicate 10 (Some busy_lock))" "[]"
          example_process "register_critical ''/home/dev/app'' (snd other_row)" permission_denied]
    by (simp add: example_registry_def maxRetries_def retryDelay_def)
  have 2: "withLock example_process (register_critical ''/home/dev/app'' (snd other_row))
          ((example_registry [] []) \<lparr>lock_file := Some 77\<rparr>)
       = (Some lock_timeout,
          (example_registry [] []) \<lparr>lock_file := Some 77, clock := 500,
             events := busy_events (replicate 10 busy_lock)\<rparr>)"
    using lock_protocol [OF b0, of "(example_registry [] []) \<lparr>lock_file := Some 77\<rparr>" "[]"
          example_process "register_critical ''/home/dev/app'' (snd other_row)" permission_denied]
    by (simp add: example_registry_def maxRetries_def retryDelay_def busy_lock_def)
  have 3: "withLock example_process (register_critical ''/home/dev/app'' (snd other_row))
          (example_registry [] [Some busy_lock, Some permission_denied])
       = (Some permission_denied,
          (example_registry [] []) \<lparr>clock := 50,
             events := [CreateLock (Some busy_lock), Sleep 50, CreateLock (Some permission_denied)]\<rparr>)"
    using lock_protocol [OF b1, of "example_registry [] [Some busy_lock, Some permission_denied]" "[]"
          example_process "register_critical ''/home/dev/app'' (snd other_row)" permission_denied]
    by (simp add: example_registry_def maxRetries_def retryDelay_def busy_events_def
          permission_denied_def fs_error_def)
  have 4: "withLock example_process (\<lambda>w. (Some SyntaxError, w)) (example_registry [] [Some busy_lock, None])
       = (Some SyntaxError,
          (example_registry [] []) \<lparr>clock := 50,
             events := [CreateLock (Some busy_lock), Sleep 50, CreateLock None, UnlinkLock None]\<rparr>)"
    using lock_protocol [OF b1, of "example_registry [] [Some busy_lock, None]" "[]"
          example_process "\<lambda>w. (Some SyntaxError, w)" permission_denied]
    by (simp add: example_registry_def maxRetries_def retryDelay_def busy_events_def acquired_def
          SyntaxError_def unlink_lock_def next_fault_def observe_def)
  show ?thesis using 1 2 3 4 by blast
qed

section \<open>Reading and writing the registry document\<close>

lemma update_fresh: "k \<notin> fst ` set al \<Longrightarrow> AList.update k v al = al @ [(k, v)]"
  by (induction al) auto

lemma cache_writes_append: "cache_writes (a @ b) = cache_writes a @ cache_writes b"
  by (induction a rule: cache_writes.induct) simp_all

lemma running_probe: "fst (isProcessRunning P p w) = running P p"
  by (simp add: isProcessRunning_def running_def split: option.splits)

lemma probe_frame:
  "cache_file (snd (isProcessRunning P p w)) = cache_file w"
  "lock_file (snd (isProcessRunning P p w)) = lock_file w"
  "faults (snd (isProcessRunning P p w)) = faults w"
  "clock (snd (isProcessRunning P p w)) = clock w"
  "cache_writes (events (snd (isProcessRunning P p w))) = cache_writes (events w)"
  by (simp_all add: isProcessRunning_def observe_def cache_writes_append split: option.splits)

lemma cleanup_loop_Cons:
  "cleanup_loop P ((k, e) # rest) (cleaned, n, w) =
     (if running P (pid e)
      then cleanup_loop P rest (AList.update k e cleaned, n, snd (isProcessRunning P (pid e) w))
      else cleanup_loop P rest
             (cleaned, Suc n, observe (RegLogged Debug ''Removing stale workspace entry'')
                                 (snd (isProcessRunning P (pid e) w))))"
  using running_probe [of P "pid e" w]
  by (cases "isProcessRunning P (pid e) w") auto

lemma cleanup_loop_frame:
  "cache_file (snd (snd (cleanup_loop P d (cleaned, n, w)))) = cache_file w
   \<and> lock_file (snd (snd (cleanup_loop P d (cleaned, n, w)))) = lock_file w
   \<and> faults (snd (snd (cleanup_loop P d (cleaned, n, w)))) = faults w
   \<and> clock (snd (snd (cleanup_loop P d (cleaned, n, w)))) = clock w
   \<and> cache_writes (events (snd (snd (cleanup_loop P d (cleaned, n, w))))) = cache_writes (events w)"
proof (induction d arbitrary: cleaned n w)
  case Nil
  show ?case by simp
next
  case (Cons row d)
  obtain k e where row: "row = (k, e)" by (cases row)
  show ?case
    unfolding row cleanup_loop_Cons
    by (simp add: Cons.IH probe_frame observe_def cache_writes_append)
qed

lemma cleanup_loop_result:
  "distinct (map fst cleaned @ map fst d) \<Longrightarrow>
   fst (cleanup_loop P d (cleaned, n, w)) = cleaned @ filter (\<lambda>row. running P (pid (snd row))) d
   \<and> fst (snd (cleanup_loop P d (cleaned, n, w))) = n + length (filter (\<lambda>row. \<not> running P (pid (snd row))) d)"
proof (induction d arbitrary: cleaned n w)
  case Nil
  show ?case by simp
next
  case (Cons row d)
  obtain k e where row: "row = (k, e)" by (cases row)
  have fresh: "k \<notin> fst ` set cleaned" using Cons.prems by (auto simp: row)
  have d1: "distinct (map fst (cleaned @ [(k, e)]) @ map fst d)" using Cons.prems by (auto simp: row)
  have d2: "distinct (map fst cleaned @ map fst d)" using Cons.prems by (auto simp: row)
  show ?case
  proof (cases "running P (pid e)")
    case True
    then show ?thesis
      unfolding row cleanup_loop_Cons update_fresh [OF fresh]
      using Cons.IH [OF d1] by simp
  next
    case False
    then show ?thesis
      unfolding row cleanup_loop_Cons
      using Cons.IH [OF d2] by simp
  qed
qed

lemma readCache_quiet:
  assumes "faults w = []"
  shows "fst (readCache w) =
           (case cache_file w of Some (Malformed t) \<Rightarrow> Inl SyntaxError | _ \<Rightarrow> Inr (stored w))"
    and "cache_file (snd (readCache w)) = cache_file w"
    and "lock_file (snd (readCache w)) = lock_file w"
    and "faults (snd (readCache w)) = []"
    and "clock (snd (readCache w)) = clock w"
    and "cache_writes (events (snd (readCache w))) = cache_writes (events w)"
  using assms
  by (simp_all add: readCache_def read_cache_file_def next_fault_def observe_def JSON_parse_def
        stored_def fs_error_def SyntaxError_def cache_writes_append
        split: option.splits file_content.splits)

lemma writeCache_quiet:
  assumes "faults w = []"
  shows "fst (writeCache c w) = None"
    and "cache_file (snd (writeCache c w)) = Some (Json c)"
    and "lock_file (snd (writeCache c w)) = lock_file w"
    and "faults (snd (writeCache c w)) = []"
    and "clock (snd (writeCache c w)) = clock w"
    and "cache_writes (events (snd (writeCache c w))) = cache_writes (events w) @ [Json c]"
  using assms
  by (simp_all add: writeCache_def write_cache_file_def next_fault_def observe_def cache_writes_append)

lemma unlink_quiet:
  assumes "faults w = []"
  shows "cache_file (snd (unlink_lock w)) = cache_file w"
    and "lock_file (snd (unlink_lock w)) = None"
    and "faults (snd (unlink_lock w)) = []"
    and "clock (snd (unlink_lock w)) = clock w"
    and "cache_writes (events (snd (unlink_lock w))) = cache_writes (events w)"
  using assms
  by (simp_all add: unlink_lock_def next_fault_def observe_def cache_writes_append split: option.splits)

lemma acquired_quiet:
  "cache_file (acquired P [] [] w) = cache_file w"
  "faults (acquired P [] [] w) = []"
  "clock (acquired P [] [] w) = clock w"
  "stored (acquired P [] [] w) = stored w"
  "cache_writes (events (acquired P [] [] w)) = cache_writes (events w)"
  by (simp_all add: acquired_def stored_def busy_events_def cache_writes_append)

section \<open>Registering and deregistering\<close>

lemma withLock_quiet:
  assumes "faults w = []" and "lock_file w = None"
    and "\<forall>x. fst (fn (acquired P [] [] w)) = Some x \<longrightarrow> err_code x \<noteq> Some ''EEXIST''"
  shows "withLock P fn w =
           (fst (fn (acquired P [] [] w)), snd (unlink_lock (snd (fn (acquired P [] [] w)))))"
proof -
  have "withLock P fn w =
           (case fst (fn (acquired P [] [] w)) of
              None \<Rightarrow> (None, snd (unlink_lock (snd (fn (acquired P [] [] w)))))
            | Some error \<Rightarrow>
                if err_code error = Some ''EEXIST''
                then withLock_from P fn (Suc (length ([]::js_error list)))
                       (sleep retryDelay (snd (unlink_lock (snd (fn (acquired P [] [] w))))))
                else (Some error, snd (unlink_lock (snd (fn (acquired P [] [] w))))))"
    using assms(1,2) by (intro withLock_acquired) (simp_all add: maxRetries_def)
  then show ?thesis using assms(3) by (simp split: option.splits)
qed

lemma readCache_ok:
  "faults w = [] \<Longrightarrow> \<forall>t. cache_file w \<noteq> Some (Malformed t) \<Longrightarrow> fst (readCache w) = Inr (stored w)"
  by (simp add: readCache_quiet(1) split: option.splits file_content.splits)

lemma register_critical_quiet:
  assumes "faults w = []" and "\<forall>t. cache_file w \<noteq> Some (Malformed t)"
  shows "register_critical k e w = writeCache (AList.update k e (stored w)) (snd (readCache w))"
  using readCache_ok [OF assms]
  by (cases "readCache w") (simp add: register_critical_def)

lemma deregister_critical_quiet:
  assumes "faults w = []" and "\<forall>t. cache_file w \<noteq> Some (Malformed t)"
  shows "deregister_critical k w =
           (if map_of (stored w) k \<noteq> None
            then writeCache (AList.delete k (stored w)) (snd (readCache w))
            else (None, snd (readCache w)))"
  using readCache_ok [OF assms]
  by (cases "readCache w") (simp add: deregister_critical_def)

lemma register_quiet:
  assumes "faults w = []" and "lock_file w = None" and "\<forall>t. cache_file w \<noteq> Some (Malformed t)"
  shows "fst (register P p w) = Inr ()"
    and "cache_file (snd (register P p w)) =
           Some (Json (AList.update (proc_cwd P)
                         \<lparr>pid = proc_pid P, port = p, startTime = date_iso P (clock w)\<rparr> (stored w)))"
    and "lock_file (snd (register P p w)) = None"
    and "faults (snd (register P p w)) = []"
proof -
  define e where "e = \<lparr>pid = proc_pid P, port = p, startTime = date_iso P (clock w)\<rparr>"
  define a where "a = acquired P [] [] w"
  define w1 where "w1 = snd (readCache a)"
  define w2 where "w2 = snd (writeCache (AList.update (proc_cwd P) e (stored w)) w1)"
  have fa: "faults a = []" and ca: "cache_file a = cache_file w" and sa: "stored a = stored w"
    by (simp_all add: a_def acquired_quiet)
  have nm: "\<forall>t. cache_file a \<noteq> Some (Malformed t)" using assms(3) ca by simp
  have crit: "register_critical (proc_cwd P) e a = writeCache (AList.update (proc_cwd P) e (stored w)) w1"
    unfolding w1_def using register_critical_quiet [OF fa nm] sa by simp
  have f1: "faults w1 = []" unfolding w1_def using fa by (rule readCache_quiet(4))
  have r: "fst (register_critical (proc_cwd P) e a) = None"
    unfolding crit using f1 by (rule writeCache_quiet(1))
  have s: "snd (register_critical (proc_cwd P) e a) = w2" by (simp add: crit w2_def)
  have f2: "faults w2 = []" unfolding w2_def using f1 by (rule writeCache_quiet(4))
  have c2: "cache_file w2 = Some (Json (AList.update (proc_cwd P) e (stored w)))"
    unfolding w2_def using f1 by (rule writeCache_quiet(2))
  have wl: "withLock P (register_critical (proc_cwd P) e) w = (None, snd (unlink_lock w2))"
    using withLock_quiet [OF assms(1,2), of "register_critical (proc_cwd P) e" P] r s
    by (simp add: a_def)
  have reg: "register P p w =
          (Inr (), observe (RegLogged Info ''Registered workspace in cache'') (snd (unlink_lock w2)))"
    by (simp add: register_def Let_def e_def [symmetric] wl)
  show "fst (register P p w) = Inr ()" by (simp add: reg)
  show "cache_file (snd (register P p w)) =
           Some (Json (AList.update (proc_cwd P)
                         \<lparr>pid = proc_pid P, port = p, startTime = date_iso P (clock w)\<rparr> (stored w)))"
    by (simp add: reg observe_def unlink_quiet(1) [OF f2] c2 e_def)
  show "lock_file (snd (register P p w)) = None"
    by (simp add: reg observe_def unlink_quiet(2) [OF f2])
  show "faults (snd (register P p w)) = []"
    by (simp add: reg observe_def unlink_quiet(3) [OF f2])
qed

lemma getActiveWorkspaces_quiet:
  assumes "faults w = []" and "\<forall>t. cache_file w \<noteq> Some (Malformed t)"
  shows "fst (getActiveWorkspaces w) = stored w"
    and "cache_file (snd (getActiveWorkspaces w)) = cache_file w"
    and "lock_file (snd (getActiveWorkspaces w)) = lock_file w"
    and "faults (snd (getActiveWorkspaces w)) = []"
  using readCache_ok [OF assms] readCache_quiet(2,3,4) [OF assms(1)]
  by (cases "readCache w"; simp add: getActiveWorkspaces_def)+

lemma deregister_quiet:
  assumes "faults w = []" and "lock_file w = None" and "\<forall>t. cache_file w \<noteq> Some (Malformed t)"
    and "map_of (stored w) (proc_cwd P) \<noteq> None"
  shows "fst (deregister P w) = Inr ()"
    and "cache_file (snd (deregister P w)) = Some (Json (AList.delete (proc_cwd P) (stored w)))"
    and "lock_file (snd (deregister P w)) = None"
proof -
  define a where "a = acquired P [] [] w"
  define w1 where "w1 = snd (readCache a)"
  define w2 where "w2 = snd (writeCache (AList.delete (proc_cwd P) (stored w)) w1)"
  have fa: "faults a = []" and ca: "cache_file a = cache_file w" and sa: "stored a = stored w"
    by (simp_all add: a_def acquired_quiet)
  have nm: "\<forall>t. cache_file a \<noteq> Some (Malformed t)" using assms(3) ca by simp
  have crit: "deregister_critical (proc_cwd P) a = writeCache (AList.delete (proc_cwd P) (stored w)) w1"
    unfolding w1_def using deregister_critical_quiet [OF fa nm, of "proc_cwd P"] sa assms(4) by simp
  have f1: "faults w1 = []" unfolding w1_def using fa by (rule readCache_quiet(4))
  have r: "fst (deregister_critical (proc_cwd P) a) = None"
    unfolding crit using f1 by (rule writeCache_quiet(1))
  have s: "snd (deregister_critical (proc_cwd P) a) = w2" by (simp add: crit w2_def)
  have f2: "faults w2 = []" unfolding w2_def using f1 by (rule writeCache_quiet(4))
  have c2: "cache_file w2 = Some (Json (AList.delete (proc_cwd P) (stored w)))"
    unfolding w2_def using f1 by (rule writeCache_quiet(2))
  have wl: "withLock P (deregister_critical (proc_cwd P)) w = (None, snd (unlink_lock w2))"
    using withLock_quiet [OF assms(1,2), of "deregister_critical (proc_cwd P)" P] r s
    by (simp add: a_def)
  have dereg: "deregister P w =
          (Inr (), observe (RegLogged Info ''Deregistered workspace from cache'') (snd (unlink_lock w2)))"
    by (simp add: deregister_def wl)
  show "fst (deregister P w) = Inr ()" by (simp add: dereg)
  show "cache_file (snd (deregister P w)) = Some (Json (AList.delete (proc_cwd P) (stored w)))"
    by (simp add: dereg observe_def unlink_quiet(1) [OF f2] c2)
  show "lock_file (snd (deregister P w)) = None"
    by (simp add: dereg observe_def unlink_quiet(2) [OF f2])
qed

text \<open>
  C8. Let no file operation fail, the lock be free and the document file be missing, empty
  or a document. Then \<open>register\<close> returns normally and the document afterwards is the
  old one with the entry of this process's pid, the given port and the start time put
  under the working directory: every other key has the row it had. A following
  \<open>getActiveWorkspaces\<close> returns that document, so under the working directory it has the
  entry with the registered pid, port and start time. A following \<open>deregister\<close> returns
  normally and leaves the old document without the rows of the working directory: that
  key has no row and every other key has the row it had before the registration.
\<close>

theorem register_roundtrip:
  assumes "faults w = []" and "lock_file w = None" and "\<forall>t. cache_file w \<noteq> Some (Malformed t)"
  shows "fst (register P p w) = Inr ()
    \<and> stored (snd (register P p w)) =
        AList.update (proc_cwd P) \<lparr>pid = proc_pid P, port = p, startTime = date_iso P (clock w)\<rparr> (stored w)
    \<and> (\<forall>k. k \<noteq> proc_cwd P \<longrightarrow> map_of (stored (snd (register P p w))) k = map_of (stored w) k)
    \<and> map_of (fst (getActiveWorkspaces (snd (register P p w)))) (proc_cwd P) =
        Some \<lparr>pid = proc_pid P, port = p, startTime = date_iso P (clock w)\<rparr>
    \<and> (\<forall>k. k \<noteq> proc_cwd P \<longrightarrow>
          map_of (fst (getActiveWorkspaces (snd (register P p w)))) k = map_of (stored w) k)
    \<and> fst (deregister P (snd (getActiveWorkspaces (snd (register P p w))))) = Inr ()
    \<and> stored (snd (deregister P (snd (getActiveWorkspaces (snd (register P p w)))))) =
        AList.delete (proc_cwd P) (stored w)
    \<and> map_of (stored (snd (deregister P (snd (getActiveWorkspaces (snd (register P p w))))))) (proc_cwd P) = None
    \<and> (\<forall>k. k \<noteq> proc_cwd P \<longrightarrow>
          map_of (stored (snd (deregister P (snd (getActiveWorkspaces (snd (register P p w))))))) k
            = map_of (stored w) k)"
proof -
  define e where "e = \<lparr>pid = proc_pid P, port = p, startTime = date_iso P (clock w)\<rparr>"
  define w1 where "w1 = snd (register P p w)"
  define w2 where "w2 = snd (getActiveWorkspaces w1)"
  define w3 where "w3 = snd (deregister P w2)"
  have r: "fst (register P p w) = Inr ()" using assms by (rule register_quiet(1))
  have c1: "cache_file w1 = Some (Json (AList.update (proc_cwd P) e (stored w)))"
    unfolding w1_def e_def using assms by (rule register_quiet(2))
  have l1: "lock_file w1 = None" unfolding w1_def using assms by (rule register_quiet(3))
  have f1: "faults w1 = []" unfolding w1_def using assms by (rule register_quiet(4))
  have s1: "stored w1 = AList.update (proc_cwd P) e (stored w)" using c1 by (simp add: stored_def [of w1])
  have n1: "\<forall>t. cache_file w1 \<noteq> Some (Malformed t)" by (simp add: c1)
  have g: "fst (getActiveWorkspaces w1) = stored w1" using f1 n1 by (rule getActiveWorkspaces_quiet(1))
  have c2: "cache_file w2 = cache_file w1" unfolding w2_def using f1 n1 by (rule getActiveWorkspaces_quiet(2))
  have l2: "lock_file w2 = None" unfolding w2_def using getActiveWorkspaces_quiet(3) [OF f1 n1] l1 by simp
  have f2: "faults w2 = []" unfolding w2_def using f1 n1 by (rule getActiveWorkspaces_quiet(4))
  have s2: "stored w2 = stored w1" using c2 by (simp add: stored_def [of w2] stored_def [of w1])
  have n2: "\<forall>t. cache_file w2 \<noteq> Some (Malformed t)" by (simp add: c2 c1)
  have m2: "map_of (stored w2) (proc_cwd P) \<noteq> None" by (simp add: s2 s1 update_conv')
  have d: "fst (deregister P w2) = Inr ()" using f2 l2 n2 m2 by (rule deregister_quiet(1))
  have c3: "cache_file w3 = Some (Json (AList.delete (proc_cwd P) (stored w2)))"
    unfolding w3_def using f2 l2 n2 m2 by (rule deregister_quiet(2))
  have "stored w3 = AList.delete (proc_cwd P) (stored w2)"
    using c3 by (simp add: stored_def [of w3])
  then have s3: "stored w3 = AList.delete (proc_cwd P) (stored w)"
    by (simp only: s2 s1 delete_update_same)
  have "fst (register P p w) = Inr ()" by (rule r)
  moreover have "stored w1 = AList.update (proc_cwd P) e (stored w)" by (rule s1)
  moreover have "\<forall>k. k \<noteq> proc_cwd P \<longrightarrow> map_of (stored w1) k = map_of (stored w) k"
    by (simp add: s1 update_conv')
  moreover have "map_of (fst (getActiveWorkspaces w1)) (proc_cwd P) = Some e"
    by (simp add: g s1 update_conv')
  moreover have "\<forall>k. k \<noteq> proc_cwd P \<longrightarrow> map_of (fst (getActiveWorkspaces w1)) k = map_of (stored w) k"
    by (simp add: g s1 update_conv')
  moreover have "fst (deregister P w2) = Inr ()" by (rule d)
  moreover have "stored w3 = AList.delete (proc_cwd P) (stored w)" by (rule s3)
  moreover have "map_of (stored w3) (proc_cwd P) = None" by (simp add: s3 delete_conv')
  moreover have "\<forall>k. k \<noteq> proc_cwd P \<longrightarrow> map_of (stored w3) k = map_of (stored w) k"
    by (simp add: s3)
  ultimately show ?thesis unfolding w3_def w2_def w1_def e_def by blast
qed

theorem register_roundtrip_witness:
  "fst (register example_process 8080 (example_registry [other_row] [])) = Inr ()
   \<and> stored (snd (register example_process 8080 (example_registry [other_row] []))) =
       [other_row,
        (''/home/dev/app'', \<lparr>pid = 4242, port = 8080, startTime = ''2025-01-01T00:00:00.000Z''\<rparr>)]
   \<and> stored (snd (deregister example_process
        (snd (getActiveWorkspaces (snd (register example_process 8080 (example_registry [other_row] []))))))) =
       [other_row]"
  using register_roundtrip [of "example_registry [other_row] []" example_process 8080]
  by (simp add: example_registry_def example_process_def other_row_def stored_def)

section \<open>Reclaiming stale entries\<close>

lemma cleanupStaleEntries_fulfilled: "fst (cleanupStaleEntries P w) = Inr ()"
  by (simp add: cleanupStaleEntries_def split: prod.splits option.splits)

lemma dead_count:
  "(0 < length (filter (\<lambda>row. \<not> running P (pid (snd row))) d)) = (\<not> (\<forall>row \<in> set d. running P (pid (snd row))))"
  by (auto simp add: filter_empty_conv)

lemma cleanup_critical_unfold:
  assumes "faults w = []" and "cache_file w = Some (Json d)"
  shows "cleanup_critical P w =
          (if 0 < fst (snd (cleanup_loop P d ([], 0, snd (readCache w))))
           then (case writeCache (fst (cleanup_loop P d ([], 0, snd (readCache w))))
                        (snd (snd (cleanup_loop P d ([], 0, snd (readCache w))))) of
                   (Some error, w3) \<Rightarrow> (Some error, w3)
                 | (None, w3) \<Rightarrow> (None, observe (RegLogged Info ''Cleaned up stale workspace entries'') w3))
           else (None, snd (snd (cleanup_loop P d ([], 0, snd (readCache w))))))"
proof -
  have "fst (readCache w) = Inr d"
    using readCache_quiet(1) [OF assms(1)] assms(2) by (simp add: stored_def)
  then show ?thesis
    by (cases "readCache w") (simp add: cleanup_critical_def case_prod_beta)
qed

lemma cleanup_critical_quiet:
  assumes "faults w = []" and "cache_file w = Some (Json d)" and "distinct (map fst d)"
  shows "fst (cleanup_critical P w) = None"
    and "cache_file (snd (cleanup_critical P w)) = Some (Json (filter (\<lambda>row. running P (pid (snd row))) d))"
    and "faults (snd (cleanup_critical P w)) = []"
    and "cache_writes (events (snd (cleanup_critical P w))) =
           cache_writes (events w) @
             (if \<forall>row \<in> set d. running P (pid (snd row)) then []
              else [Json (filter (\<lambda>row. running P (pid (snd row))) d)])"
proof -
  define w1 where "w1 = snd (readCache w)"
  define L where "L = cleanup_loop P d ([], 0, w1)"
  define w2 where "w2 = snd (snd L)"
  define live where "live = filter (\<lambda>row. running P (pid (snd row))) d"
  have f1: "faults w1 = []" and c1: "cache_file w1 = cache_file w"
    and e1: "cache_writes (events w1) = cache_writes (events w)"
    unfolding w1_def using readCache_quiet(2,4,6) [OF assms(1)] by simp_all
  have fr: "cache_file w2 = cache_file w1 \<and> lock_file w2 = lock_file w1 \<and> faults w2 = faults w1
        \<and> clock w2 = clock w1 \<and> cache_writes (events w2) = cache_writes (events w1)"
    unfolding w2_def L_def by (rule cleanup_loop_frame)
  have res: "fst L = [] @ live \<and> fst (snd L) = 0 + length (filter (\<lambda>row. \<not> running P (pid (snd row))) d)"
    unfolding L_def live_def using assms(3) by (intro cleanup_loop_result) simp
  have f2: "faults w2 = []" using fr f1 by simp
  have u: "cleanup_critical P w =
          (if 0 < fst (snd L)
           then (case writeCache (fst L) w2 of
                   (Some error, w3) \<Rightarrow> (Some error, w3)
                 | (None, w3) \<Rightarrow> (None, observe (RegLogged Info ''Cleaned up stale workspace entries'') w3))
           else (None, w2))"
    unfolding w2_def L_def w1_def using assms(1,2) by (rule cleanup_critical_unfold)
  show "fst (cleanup_critical P w) = None"
    unfolding u using writeCache_quiet(1) [OF f2, of "fst L"]
    by (cases "writeCache (fst L) w2") auto
  show "faults (snd (cleanup_critical P w)) = []"
    unfolding u using writeCache_quiet(1,4) [OF f2, of "fst L"] f2
    by (cases "writeCache (fst L) w2") (auto simp add: observe_def)
  show "cache_file (snd (cleanup_critical P w)) = Some (Json (filter (\<lambda>row. running P (pid (snd row))) d))"
  proof (cases "0 < fst (snd L)")
    case True
    then show ?thesis
      unfolding u using writeCache_quiet(1,2) [OF f2, of "fst L"] res
      by (cases "writeCache (fst L) w2") (auto simp add: observe_def live_def)
  next
    case False
    then have "\<forall>row \<in> set d. running P (pid (snd row))" using res dead_count [of P d] by simp
    then have "filter (\<lambda>row. running P (pid (snd row))) d = d" by simp
    then show ?thesis unfolding u using False fr c1 assms(2) by simp
  qed
  show "cache_writes (events (snd (cleanup_critical P w))) =
           cache_writes (events w) @
             (if \<forall>row \<in> set d. running P (pid (snd row)) then []
              else [Json (filter (\<lambda>row. running P (pid (snd row))) d)])"
  proof (cases "0 < fst (snd L)")
    case True
    then have "\<not> (\<forall>row \<in> set d. running P (pid (snd row)))" using res dead_count [of P d] by simp
    then show ?thesis
      unfolding u using True writeCache_quiet(1,6) [OF f2, of "fst L"] res fr e1
      by (cases "writeCache (fst L) w2") (auto simp add: observe_def live_def cache_writes_append)
  next
    case False
    then have "\<forall>row \<in> set d. running P (pid (snd row))" using res dead_count [of P d] by simp
    then show ?thesis unfolding u using False fr e1 by simp
  qed
qed

lemma create_lock_cache: "cache_file (snd (create_lock P w)) = cache_file w"
  by (simp add: create_lock_def next_fault_def observe_def split: list.splits option.splits)

lemma unlink_lock_cache: "cache_file (snd (unlink_lock w)) = cache_file w"
  by (simp add: unlink_lock_def next_fault_def observe_def split: list.splits option.splits)

lemma sleep_cache: "cache_file (sleep n w) = cache_file w"
  by (simp add: sleep_def observe_def)

lemma readCache_cache: "cache_file (snd (readCache w)) = cache_file w"
  by (simp add: readCache_def read_cache_file_def next_fault_def observe_def JSON_parse_def
        split: list.splits option.splits file_content.splits)

lemma readCache_value:
  "fst (readCache w) = Inr d \<Longrightarrow> d = [] \<or> cache_file w = Some (Json d)"
  by (auto simp add: readCache_def read_cache_file_def next_fault_def observe_def JSON_parse_def
        split: list.splits option.splits file_content.splits if_splits)

lemma writeCache_cases:
  "(fst (writeCache c w) = None \<and> cache_file (snd (writeCache c w)) = Some (Json c))
   \<or> (fst (writeCache c w) \<noteq> None \<and> cache_file (snd (writeCache c w)) = cache_file w)"
  by (simp add: writeCache_def write_cache_file_def next_fault_def observe_def
        split: list.splits option.splits)

lemma cleanup_critical_safe:
  assumes "\<forall>d. cache_file w = Some (Json d) \<longrightarrow> distinct (map fst d)"
  shows "(fst (cleanup_critical P w) \<noteq> None \<and> cache_file (snd (cleanup_critical P w)) = cache_file w)
         \<or> (fst (cleanup_critical P w) = None
              \<and> cleaned_or_untouched P (cache_file w) (cache_file (snd (cleanup_critical P w))))"
proof (cases "fst (readCache w)")
  case (Inl e)
  then have "cleanup_critical P w = (Some e, snd (readCache w))"
    by (cases "readCache w") (simp add: cleanup_critical_def)
  then show ?thesis by (simp add: readCache_cache)
next
  case (Inr d)
  define w1 where "w1 = snd (readCache w)"
  define L where "L = cleanup_loop P d ([], 0, w1)"
  define w2 where "w2 = snd (snd L)"
  have c2: "cache_file w2 = cache_file w"
    unfolding w2_def L_def using cleanup_loop_frame [of P d "[]" 0 w1] by (simp add: w1_def readCache_cache)
  have u: "cleanup_critical P w =
          (if 0 < fst (snd L)
           then (case writeCache (fst L) w2 of
                   (Some error, w3) \<Rightarrow> (Some error, w3)
                 | (None, w3) \<Rightarrow> (None, observe (RegLogged Info ''Cleaned up stale workspace entries'') w3))
           else (None, w2))"
    using Inr unfolding w2_def L_def w1_def
    by (cases "readCache w") (simp add: cleanup_critical_def case_prod_beta)
  show ?thesis
  proof (cases "0 < fst (snd L)")
    case False
    then show ?thesis unfolding u by (simp add: c2 cleaned_or_untouched_def)
  next
    case True
    have dd: "d = [] \<or> cache_file w = Some (Json d)" using Inr by (rule readCache_value)
    have "d \<noteq> []" using True unfolding L_def by auto
    then have cw: "cache_file w = Some (Json d)" using dd by simp
    then have "distinct (map fst d)" using assms by simp
    then have res: "fst L = [] @ filter (\<lambda>row. running P (pid (snd row))) d
        \<and> fst (snd L) = 0 + length (filter (\<lambda>row. \<not> running P (pid (snd row))) d)"
      unfolding L_def by (intro cleanup_loop_result) simp
    then have dead: "\<exists>row \<in> set d. \<not> running P (pid (snd row))"
      using True dead_count [of P d] by simp
    from writeCache_cases [of "fst L" w2] show ?thesis
    proof
      assume "fst (writeCache (fst L) w2) = None \<and> cache_file (snd (writeCache (fst L) w2)) = Some (Json (fst L))"
      then show ?thesis
        unfolding u using True res dead cw
        by (cases "writeCache (fst L) w2") (auto simp add: observe_def cleaned_or_untouched_def)
    next
      assume "fst (writeCache (fst L) w2) \<noteq> None \<and> cache_file (snd (writeCache (fst L) w2)) = cache_file w2"
      then show ?thesis
        unfolding u using True c2
        by (cases "writeCache (fst L) w2") auto
    qed
  qed
qed

lemma lock_try_safe:
  assumes "\<forall>d. cache_file w = Some (Json d) \<longrightarrow> distinct (map fst d)"
  shows "(fst (lock_try P (cleanup_critical P) w) \<noteq> None
            \<and> cache_file (snd (lock_try P (cleanup_critical P) w)) = cache_file w)
         \<or> (fst (lock_try P (cleanup_critical P) w) = None
              \<and> cleaned_or_untouched P (cache_file w) (cache_file (snd (lock_try P (cleanup_critical P) w))))"
proof (cases "fst (create_lock P w)")
  case (Some e)
  then have "lock_try P (cleanup_critical P) w = (Some e, snd (create_lock P w))"
    by (cases "create_lock P w") (simp add: lock_try_def)
  then show ?thesis by (simp add: create_lock_cache)
next
  case None
  define w1 where "w1 = snd (create_lock P w)"
  have c1: "cache_file w1 = cache_file w" unfolding w1_def by (rule create_lock_cache)
  have u: "lock_try P (cleanup_critical P) w =
             (fst (cleanup_critical P w1), snd (unlink_lock (snd (cleanup_critical P w1))))"
    using None unfolding w1_def
    by (cases "create_lock P w") (simp add: lock_try_def case_prod_beta)
  have "\<forall>d. cache_file w1 = Some (Json d) \<longrightarrow> distinct (map fst d)" using assms c1 by simp
  then show ?thesis
    unfolding u using cleanup_critical_safe [of w1 P] c1 by (simp add: unlink_lock_cache)
qed

lemma withLock_from_safe:
  assumes "\<forall>d. cache_file w = Some (Json d) \<longrightarrow> distinct (map fst d)"
    and "n = maxRetries - attempt"
  shows "cleaned_or_untouched P (cache_file w)
           (cache_file (snd (withLock_from P (cleanup_critical P) attempt w)))"
  using assms
proof (induction n arbitrary: attempt w)
  case 0
  then have "\<not> attempt < maxRetries" by simp
  then show ?case by (simp add: withLock_from_exhausted cleaned_or_untouched_def)
next
  case (Suc n)
  then have lt: "attempt < maxRetries" by simp
  define r where "r = fst (lock_try P (cleanup_critical P) w)"
  define w1 where "w1 = snd (lock_try P (cleanup_critical P) w)"
  have lt_eq: "lock_try P (cleanup_critical P) w = (r, w1)" by (simp add: r_def w1_def)
  show ?case
  proof (cases r)
    case None
    then have "withLock_from P (cleanup_critical P) attempt w = (None, w1)"
      unfolding withLock_from_step [OF lt] lt_eq by simp
    then show ?thesis
      using lock_try_safe [OF Suc.prems(1), of P] None by (simp add: r_def w1_def)
  next
    case (Some e)
    then have c1: "cache_file w1 = cache_file w"
      using lock_try_safe [OF Suc.prems(1), of P] by (simp add: r_def w1_def)
    show ?thesis
    proof (cases "err_code e = Some ''EEXIST''")
      case False
      then have "withLock_from P (cleanup_critical P) attempt w = (Some e, w1)"
        unfolding withLock_from_step [OF lt] lt_eq using Some by simp
      then show ?thesis by (simp add: c1 cleaned_or_untouched_def)
    next
      case True
      then have st: "withLock_from P (cleanup_critical P) attempt w =
               withLock_from P (cleanup_critical P) (Suc attempt) (sleep retryDelay w1)"
        unfolding withLock_from_step [OF lt] lt_eq using Some by simp
      have cs: "cache_file (sleep retryDelay w1) = cache_file w" by (simp add: sleep_cache c1)
      have "cleaned_or_untouched P (cache_file (sleep retryDelay w1))
              (cache_file (snd (withLock_from P (cleanup_critical P) (Suc attempt) (sleep retryDelay w1))))"
        using Suc.prems cs by (intro Suc.IH) simp_all
      then show ?thesis unfolding st cs .
    qed
  qed
qed

lemma cleanupStaleEntries_safe:
  assumes "\<forall>d. cache_file w = Some (Json d) \<longrightarrow> distinct (map fst d)"
  shows "cleaned_or_untouched P (cache_file w) (cache_file (snd (cleanupStaleEntries P w)))"
proof -
  have "cache_file (snd (cleanupStaleEntries P w)) = cache_file (snd (withLock P (cleanup_critical P) w))"
    by (cases "withLock P (cleanup_critical P) w")
       (simp add: cleanupStaleEntries_def observe_def split: option.splits)
  then show ?thesis
    unfolding withLock_def using withLock_from_safe [OF assms, of "maxRetries - 0" 0 P] by simp
qed

text \<open>
  C7. \<open>cleanupStaleEntries\<close> never raises, whatever the files hold, whichever file
  operations fail and whatever the probes answer. Whatever fails, the document file is
  afterwards either as it was, or, when some row's process is not running, the document
  it held with exactly the live rows, in their order. When no file operation fails and
  the lock is free, the file afterwards holds exactly the live rows of the document, each
  as it was; the file was written once if some row was dropped and not written at all if
  none was; and the lock file is gone. A row is live when the probe of its recorded pid
  succeeds; the document has one row per key, as a JSON object has.
\<close>

theorem cleanup_removes_stale_rows:
  "fst (cleanupStaleEntries P w) = Inr ()
   \<and> ((\<forall>d. cache_file w = Some (Json d) \<longrightarrow> distinct (map fst d)) \<longrightarrow>
        cleaned_or_untouched P (cache_file w) (cache_file (snd (cleanupStaleEntries P w))))
   \<and> (faults w = [] \<and> lock_file w = None \<and> cache_file w = Some (Json d) \<and> distinct (map fst d) \<longrightarrow>
        cache_file (snd (cleanupStaleEntries P w)) = Some (Json (filter (\<lambda>row. running P (pid (snd row))) d))
        \<and> cache_writes (events (snd (cleanupStaleEntries P w))) =
            cache_writes (events w) @
              (if \<forall>row \<in> set d. running P (pid (snd row)) then []
               else [Json (filter (\<lambda>row. running P (pid (snd row))) d)])
        \<and> lock_file (snd (cleanupStaleEntries P w)) = None)"
proof -
  have 1: "fst (cleanupStaleEntries P w) = Inr ()" by (rule cleanupStaleEntries_fulfilled)
  have 2: "cache_file (snd (cleanupStaleEntries P w)) = Some (Json (filter (\<lambda>row. running P (pid (snd row))) d))
        \<and> cache_writes (events (snd (cleanupStaleEntries P w))) =
            cache_writes (events w) @
              (if \<forall>row \<in> set d. running P (pid (snd row)) then []
               else [Json (filter (\<lambda>row. running P (pid (snd row))) d)])
        \<and> lock_file (snd (cleanupStaleEntries P w)) = None"
    if h: "faults w = []" "lock_file w = None" "cache_file w = Some (Json d)" "distinct (map fst d)"
  proof -
    define a where "a = acquired P [] [] w"
    define w2 where "w2 = snd (cleanup_critical P a)"
    have fa: "faults a = []" and ca: "cache_file a = Some (Json d)"
      and ea: "cache_writes (events a) = cache_writes (events w)"
      using h(3) by (simp_all add: a_def acquired_quiet)
    have r: "fst (cleanup_critical P a) = None" using fa ca h(4) by (rule cleanup_critical_quiet(1))
    have c2: "cache_file w2 = Some (Json (filter (\<lambda>row. running P (pid (snd row))) d))"
      unfolding w2_def using fa ca h(4) by (rule cleanup_critical_quiet(2))
    have f2: "faults w2 = []" unfolding w2_def using fa ca h(4) by (rule cleanup_critical_quiet(3))
    have e2: "cache_writes (events w2) = cache_writes (events w) @
              (if \<forall>row \<in> set d. running P (pid (snd row)) then []
               else [Json (filter (\<lambda>row. running P (pid (snd row))) d)])"
      unfolding w2_def using cleanup_critical_quiet(4) [OF fa ca h(4), of P] ea by simp
    have wl: "withLock P (cleanup_critical P) w = (None, snd (unlink_lock w2))"
      using withLock_quiet [OF h(1,2), of "cleanup_critical P" P] r
      by (simp add: a_def w2_def)
    have cl: "cleanupStaleEntries P w = (Inr (), snd (unlink_lock w2))"
      by (simp add: cleanupStaleEntries_def wl)
    show ?thesis
      unfolding cl using unlink_quiet(1,2,5) [OF f2] c2 e2 by simp
  qed
  have 3: "(\<forall>d. cache_file w = Some (Json d) \<longrightarrow> distinct (map fst d)) \<longrightarrow>
        cleaned_or_untouched P (cache_file w) (cache_file (snd (cleanupStaleEntries P w)))"
    using cleanupStaleEntries_safe by blast
  show ?thesis using 1 2 3 by blast
qed

theorem cleanup_removes_stale_rows_witness:
  "fst (cleanupStaleEntries example_process (example_registry [other_row, stale_row] [])) = Inr ()
   \<and> cache_file (snd (cleanupStaleEntries example_process (example_registry [other_row, stale_row] [])))
       = Some (Json [other_row])
   \<and> cache_writes (events (snd (cleanupStaleEntries example_process (example_registry [other_row, stale_row] []))))
       = [Json [other_row]]
   \<and> cache_writes (events (snd (cleanupStaleEntries example_process (example_registry [other_row] []))))
       = []
   \<and> fst (cleanupStaleEntries example_process (example_registry [other_row, stale_row] [Some permission_denied]))
       = Inr ()"
  using cleanup_removes_stale_rows [of example_process "example_registry [other_row, stale_row] []" "[other_row, stale_row]"]
    cleanup_removes_stale_rows [of example_process "example_registry [other_row] []" "[other_row]"]
    cleanup_removes_stale_rows [of example_process "example_registry [other_row, stale_row] [Some permission_denied]" "[]"]
  by (simp add: example_registry_def example_process_def other_row_def stale_row_def running_def fs_error_def)

end
